theory Spec2Isabelle
  imports Main "HOL-Library.Sublist"
begin

section \<open>Values and the outside world\<close>

text \<open>
  The program is \<^verbatim>\<open>duplicacy-util.go\<close>: it takes a lock file, rotates the log files of a
  configuration, and runs the external backup engine once per configured operation.
  Everything the Go code reads from or writes to the outside (clock, file system, lock,
  subprocess) is explicit here: the part the program cannot decide is a field of the
  record \<open>env\<close>, the part it changes is a field of the record \<open>world\<close>.
\<close>

type_synonym path = string

text \<open>
  What a file holds: plain bytes; a complete gzip stream (\<^verbatim>\<open>compress/gzip\<close>) with the
  header field \<^verbatim>\<open>Name\<close> and the data it was written from; or an initial part of some
  content, left by a write that is not finished or has failed (which part is not
  modelled). Only a complete gzip stream can be decompressed.
\<close>

datatype content = Plain string | Gzip string content | PartOf content


text \<open>One call of the external engine: program path, argument vector, working directory.\<close>

type_synonym invocation = "string \<times> string list \<times> string"

text \<open>
  The file operations that can fail: taking the lock, \<^verbatim>\<open>os.Stat\<close>, \<^verbatim>\<open>os.Open\<close>,
  \<^verbatim>\<open>os.Create\<close>, \<^verbatim>\<open>io.Copy\<close> (from, to), closing the gzip writer on a file, and
  closing a file that was written.
\<close>

datatype fsop =
  OpLock path | OpStat path | OpOpen path | OpCreate path | OpCopy path path |
  OpGzipClose path | OpClose path

text \<open>The error of \<^verbatim>\<open>os.Stat\<close>: the file does not exist (ENOENT), or anything else.\<close>

datatype stat_error = NotExist | StatFailed string

record env =
  clock :: "nat \<Rightarrow> nat"
  dateString :: "nat \<Rightarrow> string"
  durationString :: "int \<Rightarrow> string"
  pathJoin :: "string \<Rightarrow> string \<Rightarrow> string"
  fault :: "fsop \<Rightarrow> string option"
  lockedElsewhere :: "path \<Rightarrow> bool"
  executor :: "(invocation \<times> string option) list \<Rightarrow> invocation \<Rightarrow> string list \<times> string option"

text \<open>
  \<^item> \<open>clock e n\<close>: what the \<open>n\<close>-th call of \<^verbatim>\<open>time.Now()\<close> returns, in seconds of local time;
  \<^item> \<open>dateString\<close>: \<^verbatim>\<open>Format("01-02-2006 15:04:05")\<close>; \<open>durationString\<close>: \<^verbatim>\<open>Duration.String()\<close>;
  \<^item> \<open>pathJoin\<close>: \<^verbatim>\<open>filepath.Join\<close> of two elements;
  \<^item> \<open>fault e op\<close>: the error \<open>op\<close> fails with, if it fails (for \<^verbatim>\<open>os.Stat\<close>: if it
    fails with an error other than ENOENT);
  \<^item> \<open>lockedElsewhere e p\<close>: another process holds the advisory lock on \<open>p\<close>;
  \<^item> \<open>executor e h i\<close>: the output lines and the termination status (\<open>None\<close> is exit
    code 0) of the subprocess \<open>i\<close>, started after the calls \<open>h\<close>.
\<close>

record world =
  fs :: "path \<rightharpoonup> content"
  held :: "path list"
  mailBody :: "string list"
  stdout :: "string list"
  stderr :: "string list"
  calls :: "(invocation \<times> string option) list"
  ticks :: nat

text \<open>
  \<open>mailBody\<close> is the Go global of that name; \<open>stdout\<close> and \<open>stderr\<close> are the lines written
  to the two consoles; \<open>held\<close> are the locks this process holds; \<open>calls\<close> is the trace of
  subprocesses run so far, each with its termination status; \<open>ticks\<close> counts clock reads.
\<close>

text \<open>
  The globals of the program that \<^verbatim>\<open>duplicacy-util.go\<close> reads. The last four are declared in
  another file of the repository and are parameters here.
\<close>

record globals =
  cmdConfig :: string
  cmdBackup :: bool
  cmdCheck :: bool
  cmdPrune :: bool
  debugFlag :: bool
  globalLockDir :: string
  globalLogDir :: string
  globalLogFileCount :: int
  duplicacyPath :: string

text \<open>
  The fields of \<^verbatim>\<open>ConfigFile\<close> that the program reads (the type is declared in another file of
  the repository): each operation is a Go \<^verbatim>\<open>map[string]string\<close>.
\<close>

record config =
  repoDir :: string
  backupInfo :: "(string \<rightharpoonup> string) list"
  copyInfo :: "(string \<rightharpoonup> string) list"
  pruneInfo :: "(string \<rightharpoonup> string) list"
  checkInfo :: "(string \<rightharpoonup> string) list"

text \<open>Indexing a Go map: a missing key reads as the empty string.\<close>

definition at :: "(string \<rightharpoonup> string) \<Rightarrow> string \<Rightarrow> string" where
  "at m k = (case m k of None \<Rightarrow> [] | Some v \<Rightarrow> v)"

text \<open>A function returns its value or panics.\<close>

datatype 'a outcome = Returned 'a | Panicked string

section \<open>Library functions the program calls\<close>

definition digit :: "nat \<Rightarrow> char" where
  "digit n = ''0123456789'' ! (n mod 10)"

definition is_digit :: "char \<Rightarrow> bool" where
  "is_digit c = (c \<in> set ''0123456789'')"

definition two_digits :: "nat \<Rightarrow> string" where
  "two_digits n = [digit (n div 10), digit n]"

text \<open>\<^verbatim>\<open>Format("15:04:05")\<close>: hour of the day, minute and second, two digits each.\<close>

definition format_hms :: "nat \<Rightarrow> string" where
  "format_hms t =
     two_digits (t div 3600 mod 24) @ '':'' @ two_digits (t div 60 mod 60) @ '':'' @
     two_digits (t mod 60)"

definition hms_shape :: "string \<Rightarrow> bool" where
  "hms_shape s =
     (length s = 8 \<and> is_digit (s ! 0) \<and> is_digit (s ! 1) \<and> s ! 2 = CHR '':'' \<and>
      is_digit (s ! 3) \<and> is_digit (s ! 4) \<and> s ! 5 = CHR '':'' \<and>
      is_digit (s ! 6) \<and> is_digit (s ! 7))"

text \<open>\<^verbatim>\<open>strconv.Itoa\<close>.\<close>

function itoa_nat :: "nat \<Rightarrow> string" where
  "itoa_nat n = (if n < 10 then [digit n] else itoa_nat (n div 10) @ [digit n])"
  by pat_completeness auto
termination
  by (relation "measure (\<lambda>n. n)") auto

definition Itoa :: "int \<Rightarrow> string" where
  "Itoa i = (if i < 0 then ''-'' @ itoa_nat (nat (- i)) else itoa_nat (nat i))"

text \<open>\<^verbatim>\<open>strings.Split(s, sep)\<close> for a separator of one character.\<close>

fun Split :: "string \<Rightarrow> char \<Rightarrow> string list" where
  "Split [] sep = [[]]"
| "Split (x # xs) sep =
     (if x = sep then [] # Split xs sep
      else (x # hd (Split xs sep)) # tl (Split xs sep))"

text \<open>\<^verbatim>\<open>strings.Join(elems, sep)\<close>.\<close>

fun Join :: "string list \<Rightarrow> string \<Rightarrow> string" where
  "Join [] sep = []"
| "Join [x] sep = x"
| "Join (x # y # ys) sep = x @ sep @ Join (y # ys) sep"

text \<open>How \<^verbatim>\<open>fmt.Sprint\<close> prints a slice of strings.\<close>

definition sprintSlice :: "string list \<Rightarrow> string" where
  "sprintSlice xs = ''['' @ Join xs '' '' @ '']''"

definition time_Now :: "env \<Rightarrow> world \<Rightarrow> nat \<times> world" where
  "time_Now e w = (clock e (ticks w), w\<lparr>ticks := Suc (ticks w)\<rparr>)"

definition newline :: string where
  "newline = [CHR 0x0A]"

text \<open>Writing through an open handle on \<open>p\<close> appends to the file.\<close>

definition appendFile :: "path \<Rightarrow> string \<Rightarrow> world \<Rightarrow> world" where
  "appendFile p s w =
     w\<lparr>fs := (fs w)(p \<mapsto> (case fs w p of Some (Plain t) \<Rightarrow> Plain (t @ s) | _ \<Rightarrow> Plain s))\<rparr>"

text \<open>
  \<^verbatim>\<open>logger.Println\<close> of a logger made by \<^verbatim>\<open>log.New(file, "", log.Ltime)\<close>: the time, a
  space, the message and a newline go to the file.
\<close>

definition logger_Println :: "env \<Rightarrow> path \<Rightarrow> string \<Rightarrow> world \<Rightarrow> world" where
  "logger_Println e file message w =
     (let (t, w1) = time_Now e w
      in appendFile file (format_hms t @ '' '' @ message @ newline) w1)"

definition os_Rename :: "path \<Rightarrow> path \<Rightarrow> world \<Rightarrow> string option \<times> world" where
  "os_Rename old new w =
     (case fs w old of
        None \<Rightarrow> (Some ''no such file or directory'', w)
      | Some c \<Rightarrow> (None, w\<lparr>fs := ((fs w)(old := None))(new \<mapsto> c)\<rparr>))"

text \<open>
  \<^verbatim>\<open>os.Stat\<close>, of which the program reads the error only, and \<^verbatim>\<open>os.IsNotExist\<close>.
\<close>

definition os_Stat :: "env \<Rightarrow> path \<Rightarrow> world \<Rightarrow> stat_error option" where
  "os_Stat e p w =
     (case fault e (OpStat p) of
        Some x \<Rightarrow> Some (StatFailed x)
      | None \<Rightarrow> (if fs w p = None then Some NotExist else None))"

definition os_IsNotExist :: "stat_error option \<Rightarrow> bool" where
  "os_IsNotExist err = (err = Some NotExist)"

definition os_Open :: "env \<Rightarrow> path \<Rightarrow> world \<Rightarrow> string + path" where
  "os_Open e p w =
     (case fault e (OpOpen p) of
        Some x \<Rightarrow> Inl x
      | None \<Rightarrow> (if fs w p = None then Inl ''no such file or directory'' else Inr p))"

definition os_Create :: "env \<Rightarrow> path \<Rightarrow> world \<Rightarrow> string option \<times> world" where
  "os_Create e p w =
     (case fault e (OpCreate p) of
        Some x \<Rightarrow> (Some x, w)
      | None \<Rightarrow> (None, w\<lparr>fs := (fs w)(p \<mapsto> Plain [])\<rparr>))"

definition os_Remove :: "path \<Rightarrow> world \<Rightarrow> world" where
  "os_Remove p w = w\<lparr>fs := (fs w)(p := None)\<rparr>"

text \<open>
  \<^verbatim>\<open>io.Copy(archiver, reader)\<close>, where \<open>archiver\<close> is a gzip writer with the header field
  \<open>name\<close> on the file \<open>writer\<close>. The gzip writer takes the data and writes the stream as
  far as it likes; the stream is completed by its \<^verbatim>\<open>Close\<close>. After a copy that succeeded
  the file holds an initial part of the stream of the data; after a copy that failed,
  an initial part of the stream of an initial part of the data.
\<close>

definition io_Copy :: "env \<Rightarrow> path \<Rightarrow> string \<Rightarrow> path \<Rightarrow> world \<Rightarrow> string option \<times> world" where
  "io_Copy e writer name reader w =
     (case fs w reader of
        None \<Rightarrow> (Some ''file already closed'', w)
      | Some c \<Rightarrow>
          (case fault e (OpCopy reader writer) of
             Some x \<Rightarrow> (Some x, w\<lparr>fs := (fs w)(writer \<mapsto> PartOf (Gzip name (PartOf c)))\<rparr>)
           | None \<Rightarrow> (None, w\<lparr>fs := (fs w)(writer \<mapsto> PartOf (Gzip name c))\<rparr>)))"

text \<open>
  \<^verbatim>\<open>archiver.Close()\<close>: flushes what the gzip writer holds and writes the footer, which
  completes the stream in the file (an empty stream when nothing was written). When it
  fails the stream stays cut short. The program defers the call and drops its error.
\<close>

definition gzip_Close :: "env \<Rightarrow> path \<Rightarrow> string \<Rightarrow> world \<Rightarrow> world" where
  "gzip_Close e writer name w =
     (case fault e (OpGzipClose writer) of
        Some x \<Rightarrow> w
      | None \<Rightarrow>
          w\<lparr>fs := (fs w)(writer \<mapsto>
                 (case fs w writer of Some (PartOf s) \<Rightarrow> s | _ \<Rightarrow> Gzip name (Plain [])))\<rparr>)"

text \<open>
  \<^verbatim>\<open>writer.Close()\<close> of a file that was written: when it fails, what was written may
  not have reached the file. The program defers the call and drops its error.
\<close>

definition file_Close :: "env \<Rightarrow> path \<Rightarrow> world \<Rightarrow> world" where
  "file_Close e writer w =
     (case fault e (OpClose writer) of
        Some x \<Rightarrow> w\<lparr>fs := (case fs w writer of
                             None \<Rightarrow> fs w | Some c \<Rightarrow> (fs w)(writer \<mapsto> PartOf c))\<rparr>
      | None \<Rightarrow> w)"

text \<open>
  \<^verbatim>\<open>flock.TryLock\<close> (github.com/theckman/go-flock): opens the file, creating it if
  needed, and asks for an exclusive lock without waiting.
\<close>

definition TryLock :: "env \<Rightarrow> path \<Rightarrow> world \<Rightarrow> (string + bool) \<times> world" where
  "TryLock e p w =
     (case fault e (OpLock p) of
        Some x \<Rightarrow> (Inl x, w)
      | None \<Rightarrow>
          (let w1 = (if fs w p = None then w\<lparr>fs := (fs w)(p \<mapsto> Plain [])\<rparr> else w)
           in if lockedElsewhere e p then (Inr False, w1)
              else (Inr True, w1\<lparr>held := p # held w1\<rparr>)))"

definition Unlock :: "path \<Rightarrow> world \<Rightarrow> world" where
  "Unlock p w = w\<lparr>held := removeAll p (held w)\<rparr>"

text \<open>
  Modelled from the spec: \<^verbatim>\<open>Executor\<close> is defined in another file of the repository. It
  runs the program in the working directory, hands every line of its output to the
  callback, and returns an error exactly when the termination status is a failure.
\<close>

definition Executor ::
  "env \<Rightarrow> string \<Rightarrow> string list \<Rightarrow> string \<Rightarrow> (string \<Rightarrow> world \<Rightarrow> world) \<Rightarrow> world
     \<Rightarrow> string option \<times> world" where
  "Executor e prog cmdArgs dir callback w =
     (let (lines, status) = executor e (calls w) (prog, cmdArgs, dir);
          w1 = fold callback lines w
      in (status, w1\<lparr>calls := calls w1 @ [((prog, cmdArgs, dir), status)]\<rparr>))"

section \<open>The program\<close>

datatype writer = Stdout | Stderr

text \<open>\<^verbatim>\<open>logFMessage\<close>; a \<^verbatim>\<open>nil\<close> logger is \<open>None\<close>.\<close>

definition logFMessage :: "env \<Rightarrow> writer \<Rightarrow> path option \<Rightarrow> string \<Rightarrow> world \<Rightarrow> world" where
  "logFMessage e wr logger message w =
     (let w1 = (case logger of Some l \<Rightarrow> logger_Println e l message w | None \<Rightarrow> w);
          (t, w2) = time_Now e w1;
          text = format_hms t @ '' '' @ message;
          w3 = w2\<lparr>mailBody := mailBody w2 @ [text]\<rparr>
      in if wr = Stdout then w3\<lparr>stdout := stdout w3 @ [text]\<rparr>
         else w3\<lparr>stderr := stderr w3 @ [message]\<rparr>)"

definition logError :: "env \<Rightarrow> path option \<Rightarrow> string \<Rightarrow> world \<Rightarrow> world" where
  "logError e logger message w = logFMessage e Stderr logger message w"

definition logMessage :: "env \<Rightarrow> path option \<Rightarrow> string \<Rightarrow> world \<Rightarrow> world" where
  "logMessage e logger message w = logFMessage e Stdout logger message w"

subsection \<open>Log rotation\<close>

text \<open>
  The loop of \<^verbatim>\<open>rotateLogFiles\<close>:
  \<^verbatim>\<open>for i := globalLogFileCount - 2; i >= 1; i-- { os.Rename(root.i.gz, root.(i+1).gz) }\<close>.
  The error of \<^verbatim>\<open>os.Rename\<close> is dropped. The counter is an unbounded integer here: the
  retention depth is a small constant, and for every retention depth but the two least
  machine integers neither \<^verbatim>\<open>globalLogFileCount - 2\<close> nor \<^verbatim>\<open>i + 1\<close> wraps.
\<close>

function rotateLoop :: "path \<Rightarrow> int \<Rightarrow> world \<Rightarrow> world" where
  "rotateLoop logFileRoot i w =
     (if i \<ge> 1 then
        rotateLoop logFileRoot (i - 1)
          (snd (os_Rename (logFileRoot @ ''.'' @ Itoa i @ ''.gz'')
                          (logFileRoot @ ''.'' @ Itoa (i + 1) @ ''.gz'') w))
      else w)"
  by pat_completeness auto
termination
  by (relation "measure (\<lambda>(r, i, w). nat i)") auto

text \<open>
  \<^verbatim>\<open>rotateLogFiles\<close>. The two deferred calls, \<^verbatim>\<open>archiver.Close()\<close> and then
  \<^verbatim>\<open>writer.Close()\<close>, run when the function returns after \<^verbatim>\<open>os.Create\<close> has succeeded;
  the reader is closed only where \<^verbatim>\<open>os.Create\<close> fails, which changes nothing here.
\<close>

definition rotateLogFiles :: "env \<Rightarrow> globals \<Rightarrow> world \<Rightarrow> string option \<times> world" where
  "rotateLogFiles e g w =
     (let logFileRoot = pathJoin e (globalLogDir g) (cmdConfig g) @ ''.log'';
          w1 = rotateLoop logFileRoot (globalLogFileCount g - 2) w
      in if os_IsNotExist (os_Stat e logFileRoot w1) then (None, w1)
         else
           (case os_Open e logFileRoot w1 of
              Inl x \<Rightarrow> (Some x, logError e None (''Error: '' @ x) w1)
            | Inr reader \<Rightarrow>
                (case os_Create e (logFileRoot @ ''.1.gz'') w1 of
                   (Some x, w2) \<Rightarrow> (Some x, logError e None (''Error: '' @ x) w2)
                 | (None, w2) \<Rightarrow>
                     (let writer = logFileRoot @ ''.1.gz'';
                          name = logFileRoot @ ''.1.gz''
                      in case io_Copy e writer name reader w2 of
                           (Some x, w3) \<Rightarrow>
                             (Some x,
                              file_Close e writer
                                (gzip_Close e writer name (logError e None (''Error: '' @ x) w3)))
                         | (None, w3) \<Rightarrow>
                             (None, file_Close e writer (gzip_Close e writer name w3))))))"

subsection \<open>The pipeline\<close>

definition hashes :: string where
  "hashes = replicate 70 (CHR ''#'')"

text \<open>The four \<^verbatim>\<open>cmdArgs\<close> expressions of \<^verbatim>\<open>performBackup\<close>.\<close>

definition backupArgs :: "(string \<rightharpoonup> string) \<Rightarrow> string list" where
  "backupArgs b = [''backup'', ''-storage'', at b ''name'', ''-threads'', at b ''threads'', ''-stats'']"

definition copyArgs :: "(string \<rightharpoonup> string) \<Rightarrow> string list" where
  "copyArgs c = [''copy'', ''-threads'', at c ''threads'', ''-from'', at c ''from'', ''-to'', at c ''to'']"

definition pruneArgs :: "(string \<rightharpoonup> string) \<Rightarrow> string list" where
  "pruneArgs p = [''prune'', ''-all'', ''-storage'', at p ''storage''] @ Split (at p ''keep'') (CHR '' '')"

definition checkArgs :: "(string \<rightharpoonup> string) \<Rightarrow> string list" where
  "checkArgs k =
     [''check'', ''-storage'', at k ''storage''] @ (if at k ''all'' = ''true'' then [''-all''] else [])"

text \<open>
  The statements every loop body of \<^verbatim>\<open>performBackup\<close> ends with, after \<^verbatim>\<open>cmdArgs\<close> is
  built: the narration, the debug line, the subprocess, and the report of its failure.
\<close>

definition runCommand ::
  "env \<Rightarrow> globals \<Rightarrow> config \<Rightarrow> path \<Rightarrow> string \<Rightarrow> string list \<Rightarrow> world \<Rightarrow> string option \<times> world" where
  "runCommand e g c logger narration cmdArgs w =
     (let w1 = logMessage e (Some logger) narration w;
          w2 = (if debugFlag g
                then logMessage e (Some logger) (''Executing: '' @ duplicacyPath g @ sprintSlice cmdArgs) w1
                else w1);
          (err, w3) = Executor e (duplicacyPath g) cmdArgs (repoDir c) (logger_Println e logger) w2
      in case err of
           Some x \<Rightarrow> (Some x, logError e (Some logger) (''Error executing command: '' @ x) w3)
         | None \<Rightarrow> (None, w3))"

fun backupLoop ::
  "env \<Rightarrow> globals \<Rightarrow> config \<Rightarrow> path \<Rightarrow> (string \<rightharpoonup> string) list \<Rightarrow> world
     \<Rightarrow> string option outcome \<times> world" where
  "backupLoop e g c logger [] w = (Returned None, w)"
| "backupLoop e g c logger (b # bs) w =
     (let w1 = logger_Println e logger hashes w;
          cmdArgs = backupArgs b;
          narration = ''Backing up to storage '' @ at b ''name'' @ '' with '' @ at b ''threads'' @ '' threads''
      in case runCommand e g c logger narration cmdArgs w1 of
           (Some x, w2) \<Rightarrow> (Returned (Some x), w2)
         | (None, w2) \<Rightarrow> backupLoop e g c logger bs w2)"

fun copyLoop ::
  "env \<Rightarrow> globals \<Rightarrow> config \<Rightarrow> path \<Rightarrow> (string \<rightharpoonup> string) list \<Rightarrow> world
     \<Rightarrow> string option outcome \<times> world" where
  "copyLoop e g c logger [] w = (Returned None, w)"
| "copyLoop e g c logger (b # bs) w =
     (let w1 = logger_Println e logger hashes w;
          cmdArgs = copyArgs b;
          narration = ''Copying from storage '' @ at b ''from'' @ '' to storage '' @ at b ''to'' @
                      '' with '' @ at b ''threads'' @ '' threads''
      in case runCommand e g c logger narration cmdArgs w1 of
           (Some x, w2) \<Rightarrow> (Returned (Some x), w2)
         | (None, w2) \<Rightarrow> copyLoop e g c logger bs w2)"

fun pruneLoop ::
  "env \<Rightarrow> globals \<Rightarrow> config \<Rightarrow> path \<Rightarrow> (string \<rightharpoonup> string) list \<Rightarrow> world
     \<Rightarrow> string option outcome \<times> world" where
  "pruneLoop e g c logger [] w = (Returned None, w)"
| "pruneLoop e g c logger (b # bs) w =
     (let w1 = logger_Println e logger hashes w;
          cmdArgs = pruneArgs b;
          narration = ''Pruning storage '' @ at b ''storage''
      in case runCommand e g c logger narration cmdArgs w1 of
           (Some x, w2) \<Rightarrow> (Returned (Some x), w2)
         | (None, w2) \<Rightarrow> pruneLoop e g c logger bs w2)"

text \<open>
  The check loop reads \<^verbatim>\<open>configFile.pruneInfo[i]\<close> for its narration, where \<open>i\<close> is the
  index into \<^verbatim>\<open>configFile.checkInfo\<close>: Go panics when \<open>i\<close> is out of range for
  \<^verbatim>\<open>pruneInfo\<close>. The third argument from the right is the index of the head of the list.
\<close>

fun checkLoop ::
  "env \<Rightarrow> globals \<Rightarrow> config \<Rightarrow> path \<Rightarrow> nat \<Rightarrow> (string \<rightharpoonup> string) list \<Rightarrow> world
     \<Rightarrow> string option outcome \<times> world" where
  "checkLoop e g c logger i [] w = (Returned None, w)"
| "checkLoop e g c logger i (k # ks) w =
     (let w1 = logger_Println e logger hashes w;
          cmdArgs = checkArgs k
      in if i < length (pruneInfo c) then
           (let narration = ''Checking storage '' @ at (pruneInfo c ! i) ''storage''
            in case runCommand e g c logger narration cmdArgs w1 of
                 (Some x, w2) \<Rightarrow> (Returned (Some x), w2)
               | (None, w2) \<Rightarrow> checkLoop e g c logger (Suc i) ks w2)
         else (Panicked ''runtime error: index out of range'', w1))"

text \<open>The three \<^verbatim>\<open>if cmd... { ... }\<close> blocks of \<^verbatim>\<open>performBackup\<close>.\<close>

definition backupPhase ::
  "env \<Rightarrow> globals \<Rightarrow> config \<Rightarrow> path \<Rightarrow> world \<Rightarrow> string option outcome \<times> world" where
  "backupPhase e g c logger w =
     (if cmdBackup g then
        (case backupLoop e g c logger (backupInfo c) w of
           (Returned None, w1) \<Rightarrow>
             (if length (copyInfo c) \<noteq> 0 then copyLoop e g c logger (copyInfo c) w1
              else (Returned None, w1))
         | r \<Rightarrow> r)
      else (Returned None, w))"

definition prunePhase ::
  "env \<Rightarrow> globals \<Rightarrow> config \<Rightarrow> path \<Rightarrow> world \<Rightarrow> string option outcome \<times> world" where
  "prunePhase e g c logger w =
     (if cmdPrune g then pruneLoop e g c logger (pruneInfo c) w else (Returned None, w))"

definition checkPhase ::
  "env \<Rightarrow> globals \<Rightarrow> config \<Rightarrow> path \<Rightarrow> world \<Rightarrow> string option outcome \<times> world" where
  "checkPhase e g c logger w =
     (if cmdCheck g then checkLoop e g c logger 0 (checkInfo c) w else (Returned None, w))"

text \<open>\<^verbatim>\<open>performBackup\<close> from the creation of the logger on.\<close>

definition runPhases ::
  "env \<Rightarrow> globals \<Rightarrow> config \<Rightarrow> path \<Rightarrow> world \<Rightarrow> string option outcome \<times> world" where
  "runPhases e g c logger w =
     (let (startTime, w1) = time_Now e w;
          (t, w2) = time_Now e w1;
          w3 = logMessage e (Some logger) (''Beginning backup on '' @ dateString e t) w2
      in case backupPhase e g c logger w3 of
           (Returned None, w4) \<Rightarrow>
             (case prunePhase e g c logger w4 of
                (Returned None, w5) \<Rightarrow>
                  (case checkPhase e g c logger w5 of
                     (Returned None, w6) \<Rightarrow>
                       (let (endTime, w7) = time_Now e w6;
                            elapsedTime = int endTime - int startTime;
                            w8 = logger_Println e logger hashes w7
                        in (Returned None,
                            logMessage e (Some logger)
                              (''Operations completed in '' @ durationString e elapsedTime) w8))
                   | r \<Rightarrow> r)
              | r \<Rightarrow> r)
         | r \<Rightarrow> r)"

definition performBackup ::
  "env \<Rightarrow> globals \<Rightarrow> config \<Rightarrow> world \<Rightarrow> string option outcome \<times> world" where
  "performBackup e g c w =
     (let (t, w1) = time_Now e w;
          w2 = w1\<lparr>stdout := stdout w1 @ [format_hms t @ '' '' @ ''Rotating log files'']\<rparr>
      in case rotateLogFiles e g w2 of
           (Some x, w3) \<Rightarrow> (Returned (Some x), w3)
         | (None, w3) \<Rightarrow>
             (let file = pathJoin e (globalLogDir g) (cmdConfig g @ ''.log'')
              in case os_Create e file w3 of
                   (Some x, w4) \<Rightarrow> (Returned (Some x), logError e None (''Error: '' @ x) w4)
                 | (None, w4) \<Rightarrow> runPhases e g c file w4))"

subsection \<open>The lock and the exit code\<close>

text \<open>
  \<^verbatim>\<open>obtainLock\<close>. The two deferred calls run when the function returns and when
  \<^verbatim>\<open>performBackup\<close> panics, last deferred first: \<^verbatim>\<open>fileLock.Unlock()\<close>, then
  \<^verbatim>\<open>os.Remove(lockfile)\<close>, whose error is dropped.
\<close>

definition obtainLock :: "env \<Rightarrow> globals \<Rightarrow> config \<Rightarrow> world \<Rightarrow> int outcome \<times> world" where
  "obtainLock e g c w =
     (let lockfile = pathJoin e (globalLockDir g) (cmdConfig g @ ''.lock'')
      in case TryLock e lockfile w of
           (Inl x, w1) \<Rightarrow> (Returned 201, logError e None (''Error: '' @ x) w1)
         | (Inr False, w1) \<Rightarrow>
             (Returned 200,
              logError e None (''Error: '' @ ''unable to obtain lock using lockfile: '' @ lockfile) w1)
         | (Inr True, w1) \<Rightarrow>
             (let (r, w2) = performBackup e g c w1;
                  w3 = os_Remove lockfile (Unlock lockfile w2)
              in case r of
                   Returned (Some x) \<Rightarrow> (Returned 500, w3)
                 | Returned None \<Rightarrow> (Returned 0, w3)
                 | Panicked m \<Rightarrow> (Panicked m, w3)))"

text \<open>
  \<^verbatim>\<open>main\<close> once the configuration is loaded (from the test that there is something to do):
  the value handed to \<^verbatim>\<open>os.Exit\<close>. A panic that reaches the top ends a Go program with
  status 2.
\<close>

definition main :: "env \<Rightarrow> globals \<Rightarrow> config \<Rightarrow> world \<Rightarrow> int \<times> world" where
  "main e g c w =
     (if \<not> cmdBackup g \<and> \<not> cmdPrune g \<and> \<not> cmdCheck g then
        (1, logError e None ''Error: No operations to perform (specify -b, -p, -c, or -a)'' w)
      else
        (case obtainLock e g c w of
           (Returned n, w1) \<Rightarrow> (n, w1)
         | (Panicked m, w1) \<Rightarrow> (2, w1)))"

section \<open>Notions the properties are stated with\<close>

definition lockfilePath :: "env \<Rightarrow> globals \<Rightarrow> path" where
  "lockfilePath e g = pathJoin e (globalLockDir g) (cmdConfig g @ ''.lock'')"

definition logRoot :: "env \<Rightarrow> globals \<Rightarrow> path" where
  "logRoot e g = pathJoin e (globalLogDir g) (cmdConfig g) @ ''.log''"

definition logFile :: "env \<Rightarrow> globals \<Rightarrow> path" where
  "logFile e g = pathJoin e (globalLogDir g) (cmdConfig g @ ''.log'')"

text \<open>The name of the \<open>i\<close>-th compressed generation of a log.\<close>

definition generation :: "path \<Rightarrow> int \<Rightarrow> path" where
  "generation root i = root @ ''.'' @ Itoa i @ ''.gz''"

text \<open>Renaming generation \<open>i\<close> to generation \<open>i + 1\<close>, a missing file being skipped.\<close>

definition shiftOne :: "path \<Rightarrow> int \<Rightarrow> (path \<rightharpoonup> content) \<Rightarrow> (path \<rightharpoonup> content)" where
  "shiftOne root i f =
     (case f (generation root i) of
        None \<Rightarrow> f
      | Some c \<Rightarrow> (f(generation root i := None))(generation root (i + 1) \<mapsto> c))"

text \<open>The renames of a rotation with retention depth \<open>n\<close>: indices \<open>n - 2\<close> down to \<open>1\<close>.\<close>

definition shiftAll :: "path \<Rightarrow> int \<Rightarrow> (path \<rightharpoonup> content) \<Rightarrow> (path \<rightharpoonup> content)" where
  "shiftAll root n f = fold (shiftOne root) (rev [1..n - 2]) f"

text \<open>
  The plan of a run: the operations of the selected phases in the order backup, copy,
  prune, check, each list in the order of the configuration. Copy operations belong to
  the backup selection.
\<close>

definition invocationOf :: "globals \<Rightarrow> config \<Rightarrow> string list \<Rightarrow> invocation" where
  "invocationOf g c cmdArgs = (duplicacyPath g, cmdArgs, repoDir c)"

definition plan :: "globals \<Rightarrow> config \<Rightarrow> invocation list" where
  "plan g c =
     (if cmdBackup g
      then map (invocationOf g c \<circ> backupArgs) (backupInfo c) @
           map (invocationOf g c \<circ> copyArgs) (copyInfo c)
      else []) @
     (if cmdPrune g then map (invocationOf g c \<circ> pruneArgs) (pruneInfo c) else []) @
     (if cmdCheck g then map (invocationOf g c \<circ> checkArgs) (checkInfo c) else [])"

text \<open>
  Fail-fast execution of a list of invocations after the calls \<open>h\<close>: each is run in turn,
  and the first one that fails is the last one run. The result is the trace and the
  error of the failed call, if any.
\<close>

fun follow ::
  "env \<Rightarrow> (invocation \<times> string option) list \<Rightarrow> invocation list
     \<Rightarrow> (invocation \<times> string option) list \<times> string option" where
  "follow e h [] = (h, None)"
| "follow e h (p # ps) =
     (case snd (executor e h p) of
        None \<Rightarrow> follow e (h @ [(p, None)]) ps
      | Some x \<Rightarrow> (h @ [(p, Some x)], Some x))"

text \<open>
  How many operations of the plan the check loop lets through: the check loop stops
  with a panic at the first index that \<^verbatim>\<open>pruneInfo\<close> does not have.
\<close>

definition reach :: "globals \<Rightarrow> config \<Rightarrow> nat" where
  "reach g c =
     (if cmdCheck g \<and> length (pruneInfo c) < length (checkInfo c)
      then length (plan g c) - (length (checkInfo c) - length (pruneInfo c))
      else length (plan g c))"

text \<open>
  What the pipeline returns after a fail-fast execution that ended with the status \<open>s\<close>:
  the error of the failed call; with no failed call, a panic when the check loop was
  cut short, and success otherwise.
\<close>

definition verdict :: "bool \<Rightarrow> string option \<Rightarrow> string option outcome" where
  "verdict stopped s =
     (case s of
        Some x \<Rightarrow> Returned (Some x)
      | None \<Rightarrow> if stopped then Panicked ''runtime error: index out of range'' else Returned None)"

text \<open>The world once \<^verbatim>\<open>TryLock\<close> has taken the lock on \<open>p\<close>.\<close>

definition acquire :: "path \<Rightarrow> world \<Rightarrow> world" where
  "acquire p w =
     (if fs w p = None then w\<lparr>fs := (fs w)(p \<mapsto> Plain [])\<rparr> else w)\<lparr>held := p # held w\<rparr>"

text \<open>The closing statements of \<^verbatim>\<open>performBackup\<close>, from the reading of \<^verbatim>\<open>endTime\<close> on.\<close>

definition finish :: "env \<Rightarrow> path \<Rightarrow> nat \<Rightarrow> world \<Rightarrow> string option outcome \<times> world" where
  "finish e logger startTime w6 =
     (let (endTime, w7) = time_Now e w6;
          elapsedTime = int endTime - int startTime;
          w8 = logger_Println e logger hashes w7
      in (Returned None,
          logMessage e (Some logger) (''Operations completed in '' @ durationString e elapsedTime) w8))"

text \<open>
  \<open>runs e w ps stopped rw\<close>: the result \<open>rw\<close> (a returned value and a world) of a part of
  the pipeline started in the world \<open>w\<close> is the fail-fast execution of \<open>ps\<close>.
\<close>

definition runs ::
  "env \<Rightarrow> world \<Rightarrow> invocation list \<Rightarrow> bool \<Rightarrow> string option outcome \<times> world \<Rightarrow> bool" where
  "runs e w ps stopped rw =
     (calls (snd rw) = fst (follow e (calls w) ps) \<and>
      fst rw = verdict stopped (snd (follow e (calls w) ps)))"

text \<open>
  None of the file operations whose error \<^verbatim>\<open>performBackup\<close> and \<^verbatim>\<open>rotateLogFiles\<close> read
  fails.
\<close>

definition noFaults :: "env \<Rightarrow> globals \<Rightarrow> bool" where
  "noFaults e g =
     (fault e (OpStat (logRoot e g)) = None \<and>
      fault e (OpOpen (logRoot e g)) = None \<and>
      fault e (OpCreate (logRoot e g @ ''.1.gz'')) = None \<and>
      fault e (OpCopy (logRoot e g) (logRoot e g @ ''.1.gz'')) = None \<and>
      fault e (OpCreate (logFile e g)) = None)"

text \<open>
  Tokenizing on whitespace, as the specification words it: the maximal runs of
  characters that are not white space (space, tab, newline, vertical tab, form feed,
  carriage return). The first argument is the token being read.
\<close>

definition is_space :: "char \<Rightarrow> bool" where
  "is_space ch = (ch \<in> set [CHR '' '', CHR 0x09, CHR 0x0A, CHR 0x0B, CHR 0x0C, CHR 0x0D])"

fun tokens :: "string \<Rightarrow> string \<Rightarrow> string list" where
  "tokens cur [] = (if cur = [] then [] else [cur])"
| "tokens cur (x # xs) =
     (if is_space x then (if cur = [] then tokens [] xs else cur # tokens [] xs)
      else tokens (cur @ [x]) xs)"

definition whitespaceTokens :: "string \<Rightarrow> string list" where
  "whitespaceTokens s = tokens [] s"

section \<open>Sample runs\<close>

definition env0 :: env where
  "env0 =
     \<lparr>clock = (\<lambda>n. 45296 + n),
      dateString = (\<lambda>t. ''10-30-2018 '' @ format_hms t),
      durationString = (\<lambda>d. Itoa d @ ''s''),
      pathJoin = (\<lambda>d f. d @ ''/'' @ f),
      fault = (\<lambda>op. None),
      lockedElsewhere = (\<lambda>p. False),
      executor = (\<lambda>h i. ([], None))\<rparr>"

text \<open>The engine fails when it is called the second time.\<close>

definition env_fail2 :: env where
  "env_fail2 = env0\<lparr>executor := (\<lambda>h i. if length h = 1 then ([''boom''], Some ''exit status 1'') else ([], None))\<rparr>"

text \<open>Another process holds the lock.\<close>

definition env_busy :: env where
  "env_busy = env0\<lparr>lockedElsewhere := (\<lambda>p. True)\<rparr>"

text \<open>The lock file cannot be opened.\<close>

definition env_nolock :: env where
  "env_nolock = env0\<lparr>fault := (\<lambda>op. case op of OpLock p \<Rightarrow> Some ''permission denied'' | _ \<Rightarrow> None)\<rparr>"

text \<open>
  The directory of the logs cannot be searched: \<^verbatim>\<open>os.Stat\<close> and \<^verbatim>\<open>os.Open\<close> fail with
  a permission error.
\<close>

definition env_nostat :: env where
  "env_nostat =
     env0\<lparr>fault := (\<lambda>op. case op of OpStat p \<Rightarrow> Some ''permission denied''
                               | OpOpen p \<Rightarrow> Some ''permission denied'' | _ \<Rightarrow> None)\<rparr>"

text \<open>The disk is full when the gzip writer is closed.\<close>

definition env_noflush :: env where
  "env_noflush =
     env0\<lparr>fault := (\<lambda>op. case op of OpGzipClose p \<Rightarrow> Some ''no space left on device''
                               | _ \<Rightarrow> None)\<rparr>"

text \<open>The compressed log cannot be created.\<close>

definition env_nocreate :: env where
  "env_nocreate = env0\<lparr>fault := (\<lambda>op. case op of OpCreate p \<Rightarrow> Some ''permission denied'' | _ \<Rightarrow> None)\<rparr>"

definition globals0 :: globals where
  "globals0 =
     \<lparr>cmdConfig = ''job'', cmdBackup = True, cmdCheck = False, cmdPrune = False,
      debugFlag = False, globalLockDir = ''/lock'', globalLogDir = ''/log'',
      globalLogFileCount = 5, duplicacyPath = ''/bin/duplicacy''\<rparr>"

definition globals_check :: globals where
  "globals_check = globals0\<lparr>cmdBackup := False, cmdCheck := True\<rparr>"

definition world0 :: world where
  "world0 =
     \<lparr>fs = Map.empty, held = [], mailBody = [], stdout = [], stderr = [], calls = [], ticks = 0\<rparr>"

text \<open>A world where the last run left a log behind.\<close>

definition world_log :: world where
  "world_log = world0\<lparr>fs := [''/log/job.log'' \<mapsto> Plain ''old run'']\<rparr>"

text \<open>
  A world with the log of the last run and two older generations, the first and the
  third; the second is missing.
\<close>

definition world_gens :: world where
  "world_gens =
     world0\<lparr>fs :=
       [''/log/job.log'' \<mapsto> Plain ''run 3'',
        ''/log/job.log.1.gz'' \<mapsto> Gzip ''/log/job.log.1.gz'' (Plain ''run 2''),
        ''/log/job.log.3.gz'' \<mapsto> Gzip ''/log/job.log.1.gz'' (Plain ''run 0'')]\<rparr>"

definition storage :: "string \<Rightarrow> string \<rightharpoonup> string" where
  "storage n = [''name'' \<mapsto> n, ''threads'' \<mapsto> ''4'']"

definition config1 :: config where
  "config1 =
     \<lparr>repoDir = ''/repo'', backupInfo = [storage ''b2''], copyInfo = [], pruneInfo = [],
      checkInfo = []\<rparr>"

definition config3 :: config where
  "config3 = config1\<lparr>backupInfo := [storage ''b1'', storage ''b2'', storage ''b3'']\<rparr>"

text \<open>One prune operation on storage A, one check operation on storage B.\<close>

definition config_AB :: config where
  "config_AB =
     config1\<lparr>pruneInfo := [[''storage'' \<mapsto> ''A'', ''keep'' \<mapsto> ''-keep 0:365'']],
             checkInfo := [[''storage'' \<mapsto> ''B'', ''all'' \<mapsto> ''true'']]\<rparr>"

text \<open>One prune operation on storage A, two check operations on storages B and C.\<close>

definition config_ABC :: config where
  "config_ABC =
     config1\<lparr>pruneInfo := [[''storage'' \<mapsto> ''A'', ''keep'' \<mapsto> ''-keep 0:365'']],
             checkInfo := [[''storage'' \<mapsto> ''B'', ''all'' \<mapsto> ''true''],
                           [''storage'' \<mapsto> ''C'', ''all'' \<mapsto> ''true'']]\<rparr>"

text \<open>A check operation and no prune operation.\<close>

definition config_B :: config where
  "config_B = config1\<lparr>checkInfo := [[''storage'' \<mapsto> ''B'', ''all'' \<mapsto> ''true'']]\<rparr>"

declare rotateLoop.simps [simp del]
declare itoa_nat.simps [simp del]

section \<open>The log sink\<close>

lemma is_digit_digit: "is_digit (digit n)"
  unfolding is_digit_def digit_def by (rule nth_mem) simp

lemma hms_shape_format_hms: "hms_shape (format_hms t)"
  by (simp add: hms_shape_def format_hms_def two_digits_def is_digit_digit)

lemma time_Now_frame [simp]:
  "fs (snd (time_Now e w)) = fs w"
  "held (snd (time_Now e w)) = held w"
  "mailBody (snd (time_Now e w)) = mailBody w"
  "stdout (snd (time_Now e w)) = stdout w"
  "stderr (snd (time_Now e w)) = stderr w"
  "calls (snd (time_Now e w)) = calls w"
  by (simp_all add: time_Now_def)

lemma logger_Println_frame [simp]:
  "held (logger_Println e l m w) = held w"
  "mailBody (logger_Println e l m w) = mailBody w"
  "stdout (logger_Println e l m w) = stdout w"
  "stderr (logger_Println e l m w) = stderr w"
  "calls (logger_Println e l m w) = calls w"
  by (simp_all add: logger_Println_def appendFile_def time_Now_def)

lemma logFMessage_frame [simp]:
  "held (logFMessage e wr l m w) = held w"
  "calls (logFMessage e wr l m w) = calls w"
  by (simp_all add: logFMessage_def time_Now_def Let_def split: option.split)

lemma logFMessage_fs_None [simp]: "fs (logFMessage e wr None m w) = fs w"
  by (simp add: logFMessage_def time_Now_def Let_def)

text \<open>
  C8, as the code has it. Every message that goes through \<^verbatim>\<open>logFMessage\<close> is appended to
  \<^verbatim>\<open>mailBody\<close> with a time prefix of the shape HH:MM:SS and a space, whichever console it
  is for and whether or not there is a logger. The console copy is what differs: the
  standard output gets the line with the prefix, the error output gets the bare message.
\<close>

theorem mail_copy_has_time_prefix:
  "\<exists>stamp. hms_shape stamp \<and>
     mailBody (logFMessage e wr logger message w) = mailBody w @ [stamp @ '' '' @ message] \<and>
     (if wr = Stdout
      then stdout (logFMessage e wr logger message w) = stdout w @ [stamp @ '' '' @ message] \<and>
           stderr (logFMessage e wr logger message w) = stderr w
      else stderr (logFMessage e wr logger message w) = stderr w @ [message] \<and>
           stdout (logFMessage e wr logger message w) = stdout w)"
proof (cases logger)
  case None
  show ?thesis
    by (rule exI [of _ "format_hms (clock e (ticks w))"])
       (simp add: None hms_shape_format_hms logFMessage_def time_Now_def Let_def)
next
  case (Some l)
  show ?thesis
    by (rule exI [of _ "format_hms (clock e (Suc (ticks w)))"])
       (simp add: Some hms_shape_format_hms logFMessage_def time_Now_def Let_def
          logger_Println_def appendFile_def)
qed

text \<open>
  C8, as the specification words it, fails: a message for the error console is recorded
  in \<^verbatim>\<open>mailBody\<close> with the time prefix, not without it. At 12:34:56, \<^verbatim>\<open>logError(nil, "boom")\<close>
  appends \<^verbatim>\<open>12:34:56 boom\<close>.
\<close>

theorem error_message_mail_copy_counterexample:
  "mailBody (logError env0 None ''boom'' world0) = [''12:34:56 boom''] \<and>
   mailBody (logError env0 None ''boom'' world0) \<noteq> [''boom'']"
  by (simp add: logError_def logFMessage_def time_Now_def Let_def env0_def world0_def
      format_hms_def two_digits_def digit_def)

section \<open>The arguments of a prune operation\<close>

lemma Split_not_Nil [simp]: "Split s sep \<noteq> []"
  by (induction s) auto

lemma Join_Cons: "ts \<noteq> [] \<Longrightarrow> Join (t # ts) sep = t @ sep @ Join ts sep"
  by (cases ts) auto

lemma Join_Split: "Join (Split s sep) [sep] = s"
proof (induction s)
  case Nil
  show ?case by simp
next
  case (Cons x xs)
  obtain t ts where sp: "Split xs sep = t # ts"
    by (cases "Split xs sep") auto
  show ?case
  proof (cases "x = sep")
    case True
    then show ?thesis using Cons by (simp add: Join_Cons)
  next
    case False
    then show ?thesis using Cons sp by (cases ts) auto
  qed
qed

lemma Split_no_sep: "t \<in> set (Split s sep) \<Longrightarrow> sep \<notin> set t"
proof (induction s arbitrary: t)
  case Nil
  then show ?case by simp
next
  case (Cons x xs)
  obtain u us where sp: "Split xs sep = u # us"
    by (cases "Split xs sep") auto
  show ?case using Cons sp by (auto split: if_splits)
qed

lemma Split_Join:
  "ts \<noteq> [] \<Longrightarrow> \<forall>t\<in>set ts. sep \<notin> set t \<Longrightarrow> Split (Join ts [sep]) sep = ts"
proof (induction ts "[sep]" rule: Join.induct)
  case 1
  then show ?case by simp
next
  case (2 x)
  then show ?case by (induction x) auto
next
  case (3 x y ys)
  then have ih: "Split (Join (y # ys) [sep]) sep = y # ys" by simp
  from 3 have "sep \<notin> set x" by simp
  then show ?case using ih by (induction x) auto
qed

lemma tokens_Split:
  "\<forall>ch\<in>set s. is_space ch \<longrightarrow> ch = CHR '' '' \<Longrightarrow>
   tokens cur s = filter (\<lambda>t. t \<noteq> []) ((cur @ hd (Split s (CHR '' ''))) # tl (Split s (CHR '' '')))"
proof (induction s arbitrary: cur)
  case Nil
  then show ?case by simp
next
  case (Cons x xs)
  have sp: "hd (Split xs (CHR '' '')) # tl (Split xs (CHR '' '')) = Split xs (CHR '' '')"
    by simp
  show ?case
  proof (cases "x = CHR '' ''")
    case True
    have "tokens [] xs = filter (\<lambda>t. t \<noteq> []) (Split xs (CHR '' ''))"
      using Cons.IH [of "[]"] Cons.prems sp by simp
    then show ?thesis using True by (simp add: is_space_def)
  next
    case False
    then have "\<not> is_space x" using Cons.prems by auto
    then show ?thesis using False Cons.IH [of "cur @ [x]"] Cons.prems by simp
  qed
qed

lemma whitespaceTokens_Split:
  "\<forall>ch\<in>set s. is_space ch \<longrightarrow> ch = CHR '' '' \<Longrightarrow>
   whitespaceTokens s = filter (\<lambda>t. t \<noteq> []) (Split s (CHR '' ''))"
  using tokens_Split [of s "[]"] by (simp add: whitespaceTokens_def)

text \<open>
  C7, as the code has it. The argument vector of a prune operation is \<^verbatim>\<open>prune -all -storage\<close>
  and the storage name, followed by the keep policy cut at every space character: there
  is at least one token, no token holds a space, and the tokens joined by single spaces
  are the keep policy. Where the only white space of the keep policy is the space
  character, these are the whitespace tokens and the empty strings between adjacent
  spaces. The keep policy \<^verbatim>\<open>7d 30:7\<close> gives the two arguments \<^verbatim>\<open>7d\<close> and \<^verbatim>\<open>30:7\<close>.
\<close>

theorem pruneArgs_tokens:
  "\<exists>toks. pruneArgs p = [''prune'', ''-all'', ''-storage'', at p ''storage''] @ toks \<and>
     toks \<noteq> [] \<and> Join toks '' '' = at p ''keep'' \<and> (\<forall>t\<in>set toks. CHR '' '' \<notin> set t) \<and>
     ((\<forall>ch\<in>set (at p ''keep''). is_space ch \<longrightarrow> ch = CHR '' '') \<longrightarrow>
        whitespaceTokens (at p ''keep'') = filter (\<lambda>t. t \<noteq> []) toks) \<and>
     (at p ''keep'' = ''7d 30:7'' \<longrightarrow>
        pruneArgs p = [''prune'', ''-all'', ''-storage'', at p ''storage'', ''7d'', ''30:7''])"
proof -
  let ?toks = "Split (at p ''keep'') (CHR '' '')"
  have "pruneArgs p = [''prune'', ''-all'', ''-storage'', at p ''storage''] @ ?toks"
    by (simp add: pruneArgs_def)
  moreover have "Join ?toks '' '' = at p ''keep''"
    by (rule Join_Split)
  moreover have "\<forall>t\<in>set ?toks. CHR '' '' \<notin> set t"
    by (blast dest: Split_no_sep)
  moreover have "(\<forall>ch\<in>set (at p ''keep''). is_space ch \<longrightarrow> ch = CHR '' '') \<longrightarrow>
      whitespaceTokens (at p ''keep'') = filter (\<lambda>t. t \<noteq> []) ?toks"
    by (blast dest: whitespaceTokens_Split)
  moreover have "at p ''keep'' = ''7d 30:7'' \<longrightarrow>
      pruneArgs p = [''prune'', ''-all'', ''-storage'', at p ''storage'', ''7d'', ''30:7'']"
    by (simp add: pruneArgs_def)
  ultimately show ?thesis
    by (intro exI [of _ ?toks] conjI) simp_all
qed

text \<open>
  C7 at the keep policy \<^verbatim>\<open>7d 30:7\<close> of the storage \<^verbatim>\<open>s\<close>: the tokens are determined by the
  three properties above, and they are the whitespace tokens.
\<close>

theorem pruneArgs_tokens_witness:
  "pruneArgs [''storage'' \<mapsto> ''s'', ''keep'' \<mapsto> ''7d 30:7''] =
     [''prune'', ''-all'', ''-storage'', ''s'', ''7d'', ''30:7''] \<and>
   whitespaceTokens ''7d 30:7'' = [''7d'', ''30:7'']"
proof -
  let ?p = "[''storage'' \<mapsto> ''s'', ''keep'' \<mapsto> ''7d 30:7'']"
  have k: "at ?p ''keep'' = ''7d 30:7''" and n: "at ?p ''storage'' = ''s''"
    by (simp_all add: at_def)
  have sp: "\<forall>ch\<in>set ''7d 30:7''. is_space ch \<longrightarrow> ch = CHR '' ''"
    by (simp add: is_space_def)
  obtain toks where
    args: "pruneArgs ?p = [''prune'', ''-all'', ''-storage'', at ?p ''storage''] @ toks" and
    ne: "toks \<noteq> []" and
    join: "Join toks '' '' = at ?p ''keep''" and
    nosp: "\<forall>t\<in>set toks. CHR '' '' \<notin> set t" and
    ws: "(\<forall>ch\<in>set (at ?p ''keep''). is_space ch \<longrightarrow> ch = CHR '' '') \<longrightarrow>
           whitespaceTokens (at ?p ''keep'') = filter (\<lambda>t. t \<noteq> []) toks"
    using pruneArgs_tokens [of ?p] by blast
  have "toks = Split (Join toks '' '') (CHR '' '')"
    using Split_Join [OF ne nosp] by simp
  then have toks: "toks = [''7d'', ''30:7'']"
    by (simp add: join k)
  show ?thesis
    using args ws sp by (simp add: toks k n)
qed

text \<open>
  C7, as the specification words it, fails: a keep policy whose two options are
  separated by a tab is handed to the engine as one argument, where tokenizing on
  whitespace gives two.
\<close>

theorem prune_keep_tab_counterexample:
  "pruneArgs [''storage'' \<mapsto> ''s'', ''keep'' \<mapsto> ''7d'' @ [CHR 0x09] @ ''30:7''] =
     [''prune'', ''-all'', ''-storage'', ''s'', ''7d'' @ [CHR 0x09] @ ''30:7''] \<and>
   whitespaceTokens (''7d'' @ [CHR 0x09] @ ''30:7'') = [''7d'', ''30:7''] \<and>
   pruneArgs [''storage'' \<mapsto> ''s'', ''keep'' \<mapsto> ''7d'' @ [CHR 0x09] @ ''30:7''] \<noteq>
     [''prune'', ''-all'', ''-storage'', ''s''] @ whitespaceTokens (''7d'' @ [CHR 0x09] @ ''30:7'')"
  by (simp add: pruneArgs_def at_def whitespaceTokens_def is_space_def)

section \<open>The pipeline is a fail-fast execution of the plan\<close>

lemma fold_Println_calls [simp]: "calls (fold (logger_Println e l) ls w) = calls w"
  by (induction ls arbitrary: w) simp_all

lemma logMessage_calls [simp]: "calls (logMessage e l m w) = calls w"
  by (simp add: logMessage_def)

lemma logError_calls [simp]: "calls (logError e l m w) = calls w"
  by (simp add: logError_def)

lemma runCommand_status:
  "fst (runCommand e g c l n a w) = snd (executor e (calls w) (invocationOf g c a))"
  by (simp add: runCommand_def Executor_def invocationOf_def Let_def split_def split: option.split)

lemma runCommand_calls:
  "calls (snd (runCommand e g c l n a w)) =
     calls w @ [(invocationOf g c a, snd (executor e (calls w) (invocationOf g c a)))]"
  by (simp add: runCommand_def Executor_def invocationOf_def Let_def split_def split: option.split)

lemma follow_append:
  "follow e h (ps @ qs) =
     (case follow e h ps of (h1, None) \<Rightarrow> follow e h1 qs | (h1, Some x) \<Rightarrow> (h1, Some x))"
  by (induction ps arbitrary: h) (simp_all split: option.split)

lemma follow_trace:
  "follow e h ps = (h', s) \<Longrightarrow>
   \<exists>ks. h' = h @ ks \<and> prefix (map fst ks) ps \<and>
        (\<forall>i<length ks. snd (ks ! i) \<noteq> None \<longrightarrow> Suc i = length ks \<and> s = snd (ks ! i)) \<and>
        (s = None \<longrightarrow> map fst ks = ps \<and> (\<forall>k\<in>set ks. snd k = None))"
proof (induction ps arbitrary: h)
  case Nil
  then have "h' = h @ []" "s = None" by simp_all
  then show ?case by (intro exI [of _ "[]"]) simp
next
  case (Cons p ps)
  show ?case
  proof (cases "snd (executor e h p)")
    case None
    with Cons.prems have "follow e (h @ [(p, None)]) ps = (h', s)" by simp
    from Cons.IH [OF this] obtain ks where
      k1: "h' = (h @ [(p, None)]) @ ks" and
      k2: "prefix (map fst ks) ps" and
      k3: "\<forall>i<length ks. snd (ks ! i) \<noteq> None \<longrightarrow> Suc i = length ks \<and> s = snd (ks ! i)" and
      k4: "s = None \<longrightarrow> map fst ks = ps \<and> (\<forall>k\<in>set ks. snd k = None)"
      by blast
    let ?ks = "(p, None) # ks"
    have c1: "h' = h @ ?ks" using k1 by simp
    have c2: "prefix (map fst ?ks) (p # ps)" using k2 by simp
    have c3: "\<forall>i<length ?ks. snd (?ks ! i) \<noteq> None \<longrightarrow> Suc i = length ?ks \<and> s = snd (?ks ! i)"
    proof (intro allI impI)
      fix i
      assume i: "i < length ?ks" and f: "snd (?ks ! i) \<noteq> None"
      then obtain j where j: "i = Suc j" by (cases i) auto
      from i f have "j < length ks" "snd (ks ! j) \<noteq> None" unfolding j by simp_all
      with k3 have "Suc j = length ks \<and> s = snd (ks ! j)" by blast
      then have a: "length ks = Suc j" and b: "s = snd (ks ! j)" by simp_all
      show "Suc i = length ?ks \<and> s = snd (?ks ! i)"
        unfolding j by (simp add: a b)
    qed
    have c4: "s = None \<longrightarrow> map fst ?ks = p # ps \<and> (\<forall>k\<in>set ?ks. snd k = None)"
      using k4 by simp
    show ?thesis
      by (rule exI [of _ ?ks]) (intro conjI c1 c2 c3 c4)
  next
    case (Some x)
    with Cons.prems have "h' = h @ [(p, Some x)]" "s = Some x" by auto
    then show ?thesis
      by (intro exI [of _ "[(p, Some x)]"]) simp
  qed
qed

lemma backupLoop_follow:
  "calls (snd (backupLoop e g c l bs w)) =
     fst (follow e (calls w) (map (invocationOf g c \<circ> backupArgs) bs)) \<and>
   fst (backupLoop e g c l bs w) =
     Returned (snd (follow e (calls w) (map (invocationOf g c \<circ> backupArgs) bs)))"
proof (induction bs arbitrary: w)
  case Nil
  show ?case by simp
next
  case (Cons b bs)
  let ?w1 = "logger_Println e l hashes w"
  let ?n = "''Backing up to storage '' @ at b ''name'' @ '' with '' @ at b ''threads'' @ '' threads''"
  let ?rc = "runCommand e g c l ?n (backupArgs b) ?w1"
  have eq: "backupLoop e g c l (b # bs) w =
      (case ?rc of (Some x, w2) \<Rightarrow> (Returned (Some x), w2)
                 | (None, w2) \<Rightarrow> backupLoop e g c l bs w2)"
    by (simp only: backupLoop.simps Let_def)
  obtain r w2 where rc: "?rc = (r, w2)" by (cases ?rc)
  have st: "r = snd (executor e (calls w) (invocationOf g c (backupArgs b)))"
    using runCommand_status [of e g c l ?n "backupArgs b" ?w1] by (simp only: rc fst_conv logger_Println_frame)
  have cl: "calls w2 = calls w @ [(invocationOf g c (backupArgs b), r)]"
    using runCommand_calls [of e g c l ?n "backupArgs b" ?w1] by (simp only: rc snd_conv logger_Println_frame st)
  let ?f = "invocationOf g c \<circ> backupArgs"
  show ?case
  proof (cases r)
    case None
    have step: "backupLoop e g c l (b # bs) w = backupLoop e g c l bs w2"
      by (simp only: eq rc None prod.case option.case)
    have ex: "snd (executor e (calls w) (?f b)) = None"
      using st None by simp
    have fol: "follow e (calls w) (map ?f (b # bs)) = follow e (calls w2) (map ?f bs)"
      using ex by (simp add: cl None)
    show ?thesis unfolding step fol by (rule Cons.IH)
  next
    case (Some x)
    have step: "backupLoop e g c l (b # bs) w = (Returned (Some x), w2)"
      by (simp only: eq rc Some prod.case option.case)
    have ex: "snd (executor e (calls w) (?f b)) = Some x"
      using st Some by simp
    have fol: "follow e (calls w) (map ?f (b # bs)) = (calls w2, Some x)"
      using ex by (simp add: cl Some)
    show ?thesis unfolding step fol by simp
  qed
qed

lemma copyLoop_follow:
  "calls (snd (copyLoop e g c l bs w)) =
     fst (follow e (calls w) (map (invocationOf g c \<circ> copyArgs) bs)) \<and>
   fst (copyLoop e g c l bs w) =
     Returned (snd (follow e (calls w) (map (invocationOf g c \<circ> copyArgs) bs)))"
proof (induction bs arbitrary: w)
  case Nil
  show ?case by simp
next
  case (Cons b bs)
  let ?w1 = "logger_Println e l hashes w"
  let ?n = "''Copying from storage '' @ at b ''from'' @ '' to storage '' @ at b ''to'' @
      '' with '' @ at b ''threads'' @ '' threads''"
  let ?rc = "runCommand e g c l ?n (copyArgs b) ?w1"
  have eq: "copyLoop e g c l (b # bs) w =
      (case ?rc of (Some x, w2) \<Rightarrow> (Returned (Some x), w2)
                 | (None, w2) \<Rightarrow> copyLoop e g c l bs w2)"
    by (simp only: copyLoop.simps Let_def)
  obtain r w2 where rc: "?rc = (r, w2)" by (cases ?rc)
  have st: "r = snd (executor e (calls w) (invocationOf g c (copyArgs b)))"
    using runCommand_status [of e g c l ?n "copyArgs b" ?w1] by (simp only: rc fst_conv logger_Println_frame)
  have cl: "calls w2 = calls w @ [(invocationOf g c (copyArgs b), r)]"
    using runCommand_calls [of e g c l ?n "copyArgs b" ?w1] by (simp only: rc snd_conv logger_Println_frame st)
  let ?f = "invocationOf g c \<circ> copyArgs"
  show ?case
  proof (cases r)
    case None
    have step: "copyLoop e g c l (b # bs) w = copyLoop e g c l bs w2"
      by (simp only: eq rc None prod.case option.case)
    have ex: "snd (executor e (calls w) (?f b)) = None"
      using st None by simp
    have fol: "follow e (calls w) (map ?f (b # bs)) = follow e (calls w2) (map ?f bs)"
      using ex by (simp add: cl None)
    show ?thesis unfolding step fol by (rule Cons.IH)
  next
    case (Some x)
    have step: "copyLoop e g c l (b # bs) w = (Returned (Some x), w2)"
      by (simp only: eq rc Some prod.case option.case)
    have ex: "snd (executor e (calls w) (?f b)) = Some x"
      using st Some by simp
    have fol: "follow e (calls w) (map ?f (b # bs)) = (calls w2, Some x)"
      using ex by (simp add: cl Some)
    show ?thesis unfolding step fol by simp
  qed
qed

lemma pruneLoop_follow:
  "calls (snd (pruneLoop e g c l bs w)) =
     fst (follow e (calls w) (map (invocationOf g c \<circ> pruneArgs) bs)) \<and>
   fst (pruneLoop e g c l bs w) =
     Returned (snd (follow e (calls w) (map (invocationOf g c \<circ> pruneArgs) bs)))"
proof (induction bs arbitrary: w)
  case Nil
  show ?case by simp
next
  case (Cons b bs)
  let ?w1 = "logger_Println e l hashes w"
  let ?n = "''Pruning storage '' @ at b ''storage''"
  let ?rc = "runCommand e g c l ?n (pruneArgs b) ?w1"
  have eq: "pruneLoop e g c l (b # bs) w =
      (case ?rc of (Some x, w2) \<Rightarrow> (Returned (Some x), w2)
                 | (None, w2) \<Rightarrow> pruneLoop e g c l bs w2)"
    by (simp only: pruneLoop.simps Let_def)
  obtain r w2 where rc: "?rc = (r, w2)" by (cases ?rc)
  have st: "r = snd (executor e (calls w) (invocationOf g c (pruneArgs b)))"
    using runCommand_status [of e g c l ?n "pruneArgs b" ?w1] by (simp only: rc fst_conv logger_Println_frame)
  have cl: "calls w2 = calls w @ [(invocationOf g c (pruneArgs b), r)]"
    using runCommand_calls [of e g c l ?n "pruneArgs b" ?w1] by (simp only: rc snd_conv logger_Println_frame st)
  let ?f = "invocationOf g c \<circ> pruneArgs"
  show ?case
  proof (cases r)
    case None
    have step: "pruneLoop e g c l (b # bs) w = pruneLoop e g c l bs w2"
      by (simp only: eq rc None prod.case option.case)
    have ex: "snd (executor e (calls w) (?f b)) = None"
      using st None by simp
    have fol: "follow e (calls w) (map ?f (b # bs)) = follow e (calls w2) (map ?f bs)"
      using ex by (simp add: cl None)
    show ?thesis unfolding step fol by (rule Cons.IH)
  next
    case (Some x)
    have step: "pruneLoop e g c l (b # bs) w = (Returned (Some x), w2)"
      by (simp only: eq rc Some prod.case option.case)
    have ex: "snd (executor e (calls w) (?f b)) = Some x"
      using st Some by simp
    have fol: "follow e (calls w) (map ?f (b # bs)) = (calls w2, Some x)"
      using ex by (simp add: cl Some)
    show ?thesis unfolding step fol by simp
  qed
qed

lemma checkLoop_follow:
  "calls (snd (checkLoop e g c l i ks w)) =
     fst (follow e (calls w)
            (map (invocationOf g c \<circ> checkArgs) (take (length (pruneInfo c) - i) ks))) \<and>
   fst (checkLoop e g c l i ks w) =
     verdict (length (pruneInfo c) - i < length ks)
       (snd (follow e (calls w)
               (map (invocationOf g c \<circ> checkArgs) (take (length (pruneInfo c) - i) ks))))"
proof (induction ks arbitrary: i w)
  case Nil
  show ?case by (simp add: verdict_def)
next
  case (Cons k ks)
  let ?w1 = "logger_Println e l hashes w"
  let ?f = "invocationOf g c \<circ> checkArgs"
  show ?case
  proof (cases "i < length (pruneInfo c)")
    case False
    then have "checkLoop e g c l i (k # ks) w = (Panicked ''runtime error: index out of range'', ?w1)"
      by (simp only: checkLoop.simps Let_def if_False)
    then show ?thesis using False by (simp add: verdict_def)
  next
    case True
    let ?n = "''Checking storage '' @ at (pruneInfo c ! i) ''storage''"
    let ?rc = "runCommand e g c l ?n (checkArgs k) ?w1"
    have eq: "checkLoop e g c l i (k # ks) w =
        (case ?rc of (Some x, w2) \<Rightarrow> (Returned (Some x), w2)
                   | (None, w2) \<Rightarrow> checkLoop e g c l (Suc i) ks w2)"
      using True by (simp only: checkLoop.simps Let_def if_True)
    obtain r w2 where rc: "?rc = (r, w2)" by (cases ?rc)
    have st: "r = snd (executor e (calls w) (invocationOf g c (checkArgs k)))"
      using runCommand_status [of e g c l ?n "checkArgs k" ?w1]
      by (simp only: rc fst_conv logger_Println_frame)
    have cl: "calls w2 = calls w @ [(invocationOf g c (checkArgs k), r)]"
      using runCommand_calls [of e g c l ?n "checkArgs k" ?w1]
      by (simp only: rc snd_conv logger_Println_frame st)
    have tk: "take (length (pruneInfo c) - i) (k # ks) = k # take (length (pruneInfo c) - Suc i) ks"
    proof -
      from True have "length (pruneInfo c) - i = Suc (length (pruneInfo c) - Suc i)" by arith
      then show ?thesis by simp
    qed
    have lt: "(length (pruneInfo c) - i < length (k # ks)) = (length (pruneInfo c) - Suc i < length ks)"
      using True by auto
    show ?thesis
    proof (cases r)
      case None
      have step: "checkLoop e g c l i (k # ks) w = checkLoop e g c l (Suc i) ks w2"
        by (simp only: eq rc None prod.case option.case)
      have ex: "snd (executor e (calls w) (?f k)) = None"
        using st None by simp
      have fol: "follow e (calls w) (map ?f (k # take (length (pruneInfo c) - Suc i) ks)) =
          follow e (calls w2) (map ?f (take (length (pruneInfo c) - Suc i) ks))"
        using ex by (simp add: cl None)
      show ?thesis unfolding step tk lt fol by (rule Cons.IH)
    next
      case (Some x)
      have step: "checkLoop e g c l i (k # ks) w = (Returned (Some x), w2)"
        by (simp only: eq rc Some prod.case option.case)
      have ex: "snd (executor e (calls w) (?f k)) = Some x"
        using st Some by simp
      have fol: "follow e (calls w) (map ?f (k # take (length (pruneInfo c) - Suc i) ks)) =
          (calls w2, Some x)"
        using ex by (simp add: cl Some)
      show ?thesis unfolding step tk lt fol by (simp add: verdict_def)
    qed
  qed
qed

lemma runs_backupLoop:
  "runs e w (map (invocationOf g c \<circ> backupArgs) bs) False (backupLoop e g c l bs w)"
  using backupLoop_follow [of e g c l bs w] by (simp add: runs_def verdict_def split: option.split)

lemma runs_copyLoop:
  "runs e w (map (invocationOf g c \<circ> copyArgs) bs) False (copyLoop e g c l bs w)"
  using copyLoop_follow [of e g c l bs w] by (simp add: runs_def verdict_def split: option.split)

lemma runs_pruneLoop:
  "runs e w (map (invocationOf g c \<circ> pruneArgs) bs) False (pruneLoop e g c l bs w)"
  using pruneLoop_follow [of e g c l bs w] by (simp add: runs_def verdict_def split: option.split)

lemma runs_checkLoop:
  "runs e w (map (invocationOf g c \<circ> checkArgs) (take (length (pruneInfo c)) ks))
     (length (pruneInfo c) < length ks) (checkLoop e g c l 0 ks w)"
  using checkLoop_follow [of e g c l 0 ks w] by (simp add: runs_def)

lemma runs_Nil: "runs e w [] False (Returned None, w)"
  by (simp add: runs_def verdict_def)

lemma runs_calls_eq:
  "runs e w ps st rw \<Longrightarrow> calls w0 = calls w \<Longrightarrow> runs e w0 ps st rw"
  by (simp add: runs_def)

lemma runs_seq:
  assumes "runs e w ps False (r1, w1)" and "\<And>w'. runs e w' qs st (P w')"
  shows "runs e w (ps @ qs) st (case r1 of Returned None \<Rightarrow> P w1 | _ \<Rightarrow> (r1, w1))"
proof (cases "snd (follow e (calls w) ps)")
  case None
  with assms(1) have r1: "r1 = Returned None" and h: "follow e (calls w) ps = (calls w1, None)"
    by (simp_all add: runs_def verdict_def prod_eq_iff)
  have "follow e (calls w) (ps @ qs) = follow e (calls w1) qs"
    by (simp add: follow_append h)
  then show ?thesis using assms(2) [of w1] by (simp add: r1 runs_def)
next
  case (Some x)
  with assms(1) have r1: "r1 = Returned (Some x)" and h: "follow e (calls w) ps = (calls w1, Some x)"
    by (simp_all add: runs_def verdict_def prod_eq_iff)
  have "follow e (calls w) (ps @ qs) = (calls w1, Some x)"
    by (simp add: follow_append h)
  then show ?thesis by (simp add: r1 runs_def verdict_def)
qed

lemma runs_backupPhase:
  "runs e w
     (if cmdBackup g
      then map (invocationOf g c \<circ> backupArgs) (backupInfo c) @
           map (invocationOf g c \<circ> copyArgs) (copyInfo c)
      else [])
     False (backupPhase e g c l w)"
proof (cases "cmdBackup g")
  case False
  then show ?thesis by (simp add: backupPhase_def runs_Nil)
next
  case True
  obtain r1 w1 where b: "backupLoop e g c l (backupInfo c) w = (r1, w1)"
    by (cases "backupLoop e g c l (backupInfo c) w")
  let ?P = "\<lambda>w'. if length (copyInfo c) \<noteq> 0 then copyLoop e g c l (copyInfo c) w' else (Returned None, w')"
  have P: "\<And>w'. runs e w' (map (invocationOf g c \<circ> copyArgs) (copyInfo c)) False (?P w')"
    using runs_copyLoop [of e _ g c "copyInfo c" l] by (simp add: runs_Nil)
  have "runs e w (map (invocationOf g c \<circ> backupArgs) (backupInfo c)) False (r1, w1)"
    using runs_backupLoop [of e w g c "backupInfo c" l] by (simp add: b)
  from runs_seq [OF this P]
  have "runs e w (map (invocationOf g c \<circ> backupArgs) (backupInfo c) @
                  map (invocationOf g c \<circ> copyArgs) (copyInfo c)) False
          (case r1 of Returned None \<Rightarrow> ?P w1 | _ \<Rightarrow> (r1, w1))" .
  moreover have "backupPhase e g c l w = (case r1 of Returned None \<Rightarrow> ?P w1 | _ \<Rightarrow> (r1, w1))"
    using True by (simp add: backupPhase_def b split: outcome.split option.split)
  ultimately show ?thesis using True by simp
qed

lemma runs_prunePhase:
  "runs e w (if cmdPrune g then map (invocationOf g c \<circ> pruneArgs) (pruneInfo c) else [])
     False (prunePhase e g c l w)"
  by (simp add: prunePhase_def runs_Nil runs_pruneLoop)

lemma runs_checkPhase:
  "runs e w
     (if cmdCheck g
      then map (invocationOf g c \<circ> checkArgs) (take (length (pruneInfo c)) (checkInfo c)) else [])
     (cmdCheck g \<and> length (pruneInfo c) < length (checkInfo c)) (checkPhase e g c l w)"
  by (simp add: checkPhase_def runs_Nil runs_checkLoop)

lemma take_reach_plan:
  "take (reach g c) (plan g c) =
     (if cmdBackup g
      then map (invocationOf g c \<circ> backupArgs) (backupInfo c) @
           map (invocationOf g c \<circ> copyArgs) (copyInfo c)
      else []) @
     (if cmdPrune g then map (invocationOf g c \<circ> pruneArgs) (pruneInfo c) else []) @
     (if cmdCheck g
      then map (invocationOf g c \<circ> checkArgs) (take (length (pruneInfo c)) (checkInfo c)) else [])"
  by (simp add: reach_def plan_def take_map)

lemma reach_less:
  "(reach g c < length (plan g c)) = (cmdCheck g \<and> length (pruneInfo c) < length (checkInfo c))"
  by (auto simp add: reach_def plan_def)

lemma runs_seq_fun:
  assumes "\<And>w'. runs e w' ps False (F w')" and "\<And>w'. runs e w' qs st (P w')"
  shows "runs e w (ps @ qs) st
           (case F w of (r1, w1) \<Rightarrow> (case r1 of Returned None \<Rightarrow> P w1 | _ \<Rightarrow> (r1, w1)))"
proof -
  obtain r1 w1 where f: "F w = (r1, w1)" by (cases "F w")
  have "runs e w ps False (r1, w1)" using assms(1) [of w] by (simp add: f)
  from runs_seq [OF this assms(2)] show ?thesis by (simp add: f)
qed

lemma runs_finish:
  assumes "runs e w qs st (F w)" and "\<And>w'. calls (snd (fin w')) = calls w' \<and> fst (fin w') = Returned None"
  shows "runs e w qs st
           (case F w of (r1, w1) \<Rightarrow> (case r1 of Returned None \<Rightarrow> fin w1 | _ \<Rightarrow> (r1, w1)))"
proof -
  obtain r1 w1 where f: "F w = (r1, w1)" by (cases "F w")
  show ?thesis
  proof (cases "r1 = Returned None")
    case True
    have res: "(case F w of (r1, w1) \<Rightarrow> (case r1 of Returned None \<Rightarrow> fin w1 | _ \<Rightarrow> (r1, w1))) = fin w1"
      by (simp add: f True)
    from assms(1) have h: "calls w1 = fst (follow e (calls w) qs)"
      and v: "verdict st (snd (follow e (calls w) qs)) = Returned None"
      by (simp_all add: f True runs_def)
    show ?thesis unfolding res runs_def v using assms(2) [of w1] h by simp
  next
    case False
    then have "(case r1 of Returned None \<Rightarrow> fin w1 | _ \<Rightarrow> (r1, w1)) = (r1, w1)"
      by (simp split: outcome.split option.split)
    then show ?thesis using assms(1) by (simp add: f)
  qed
qed

lemma finish_props:
  "calls (snd (finish e l t w)) = calls w \<and> fst (finish e l t w) = Returned None"
  by (simp add: finish_def Let_def split_def)

lemma runPhases_unfold:
  "runPhases e g c l w =
     (case backupPhase e g c l
             (logMessage e (Some l)
                (''Beginning backup on '' @ dateString e (fst (time_Now e (snd (time_Now e w)))))
                (snd (time_Now e (snd (time_Now e w))))) of
        (r1, w1) \<Rightarrow>
          (case r1 of
             Returned None \<Rightarrow>
               (case prunePhase e g c l w1 of
                  (r2, w2) \<Rightarrow>
                    (case r2 of
                       Returned None \<Rightarrow>
                         (case checkPhase e g c l w2 of
                            (r3, w3) \<Rightarrow>
                              (case r3 of
                                 Returned None \<Rightarrow> finish e l (fst (time_Now e w)) w3
                               | _ \<Rightarrow> (r3, w3)))
                     | _ \<Rightarrow> (r2, w2)))
           | _ \<Rightarrow> (r1, w1)))"
  unfolding runPhases_def finish_def Let_def split_def
  by (simp split: prod.split outcome.split option.split)

lemma runs_runPhases:
  "runs e w (take (reach g c) (plan g c)) (reach g c < length (plan g c)) (runPhases e g c l w)"
proof -
  let ?w3 = "logMessage e (Some l)
                (''Beginning backup on '' @ dateString e (fst (time_Now e (snd (time_Now e w)))))
                (snd (time_Now e (snd (time_Now e w))))"
  let ?st = "cmdCheck g \<and> length (pruneInfo c) < length (checkInfo c)"
  let ?C = "\<lambda>w2. case checkPhase e g c l w2 of
                     (r3, w3) \<Rightarrow> (case r3 of Returned None \<Rightarrow> finish e l (fst (time_Now e w)) w3
                                  | _ \<Rightarrow> (r3, w3))"
  let ?B = "\<lambda>w1. case prunePhase e g c l w1 of
                     (r2, w2) \<Rightarrow> (case r2 of Returned None \<Rightarrow> ?C w2 | _ \<Rightarrow> (r2, w2))"
  have c: "\<And>w'. runs e w' (if cmdCheck g
      then map (invocationOf g c \<circ> checkArgs) (take (length (pruneInfo c)) (checkInfo c)) else [])
      ?st (?C w')"
    by (rule runs_finish [OF runs_checkPhase finish_props])
  have b: "\<And>w'. runs e w'
      ((if cmdPrune g then map (invocationOf g c \<circ> pruneArgs) (pruneInfo c) else []) @
       (if cmdCheck g
        then map (invocationOf g c \<circ> checkArgs) (take (length (pruneInfo c)) (checkInfo c)) else []))
      ?st (?B w')"
    by (rule runs_seq_fun [OF runs_prunePhase c])
  have a: "runs e ?w3 (take (reach g c) (plan g c)) ?st
      (case backupPhase e g c l ?w3 of
         (r1, w1) \<Rightarrow> (case r1 of Returned None \<Rightarrow> ?B w1 | _ \<Rightarrow> (r1, w1)))"
    unfolding take_reach_plan by (rule runs_seq_fun [OF runs_backupPhase b])
  have "calls w = calls ?w3" by simp
  from runs_calls_eq [OF a this] show ?thesis
    unfolding reach_less by (simp only: runPhases_unfold)
qed

section \<open>Log rotation\<close>

lemma os_Rename_shiftOne:
  "snd (os_Rename (root @ ''.'' @ Itoa i @ ''.gz'') (root @ ''.'' @ Itoa (i + 1) @ ''.gz'') w) =
     w\<lparr>fs := shiftOne root i (fs w)\<rparr>"
  by (simp add: os_Rename_def shiftOne_def generation_def split: option.split)

lemma rev_upto_rec: "1 \<le> i \<Longrightarrow> rev [1..i] = i # rev [1..i - 1]"
  by (simp add: upto_rec2)

lemma rotateLoop_fold:
  "rotateLoop root i w = w\<lparr>fs := fold (shiftOne root) (rev [1..i]) (fs w)\<rparr>"
proof (induction root i w rule: rotateLoop.induct)
  case (1 root i w)
  show ?case
  proof (cases "1 \<le> i")
    case False
    then have "rotateLoop root i w = w" by (subst rotateLoop.simps) simp
    then show ?thesis using False by simp
  next
    case True
    have "rotateLoop root i w = rotateLoop root (i - 1) (w\<lparr>fs := shiftOne root i (fs w)\<rparr>)"
      using True by (subst rotateLoop.simps) (simp only: if_True os_Rename_shiftOne)
    also have "\<dots> = (w\<lparr>fs := shiftOne root i (fs w)\<rparr>)
        \<lparr>fs := fold (shiftOne root) (rev [1..i - 1]) (fs (w\<lparr>fs := shiftOne root i (fs w)\<rparr>))\<rparr>"
      by (rule "1.IH" [OF True, unfolded os_Rename_shiftOne])
    finally show ?thesis using True by (simp add: rev_upto_rec)
  qed
qed

lemma rotateLoop_shiftAll:
  "rotateLoop root (n - 2) w = w\<lparr>fs := shiftAll root n (fs w)\<rparr>"
  by (simp add: rotateLoop_fold shiftAll_def)

lemma generation_neq [simp]: "generation root i \<noteq> root" "root \<noteq> generation root i"
  by (simp_all add: generation_def)

lemma shiftOne_root [simp]: "shiftOne root i f root = f root"
  by (simp add: shiftOne_def split: option.split)

lemma fold_shiftOne_root [simp]: "fold (shiftOne root) is f root = f root"
  by (induction "is" arbitrary: f) simp_all

lemma shiftAll_root [simp]: "shiftAll root n f root = f root"
  by (simp add: shiftAll_def)

lemma gz_neq [simp]: "root @ ''.1.gz'' \<noteq> root" "root \<noteq> root @ ''.1.gz''"
  by simp_all

lemma gzip_Close_frame [simp]:
  "calls (gzip_Close e p n w) = calls w" "held (gzip_Close e p n w) = held w"
  by (simp_all add: gzip_Close_def split: option.split)

lemma file_Close_frame [simp]:
  "calls (file_Close e p w) = calls w" "held (file_Close e p w) = held w"
  by (simp_all add: file_Close_def split: option.split)

lemma rotateLogFiles_eq:
  "rotateLogFiles e g w =
     (let root = logRoot e g; gz = root @ ''.1.gz'';
          w1 = w\<lparr>fs := shiftAll root (globalLogFileCount g) (fs w)\<rparr>
      in if fault e (OpStat root) = None \<and> fs w root = None then (None, w1)
         else
           (case fault e (OpOpen root) of
              Some x \<Rightarrow> (Some x, logError e None (''Error: '' @ x) w1)
            | None \<Rightarrow>
                (case fs w root of
                   None \<Rightarrow>
                     (Some ''no such file or directory'',
                      logError e None (''Error: '' @ ''no such file or directory'') w1)
                 | Some b \<Rightarrow>
                     (case fault e (OpCreate gz) of
                        Some x \<Rightarrow> (Some x, logError e None (''Error: '' @ x) w1)
                      | None \<Rightarrow>
                          (case fault e (OpCopy root gz) of
                             Some x \<Rightarrow>
                               (Some x,
                                file_Close e gz
                                  (gzip_Close e gz gz
                                     (logError e None (''Error: '' @ x)
                                        (w1\<lparr>fs := (fs w1)(gz \<mapsto> PartOf (Gzip gz (PartOf b)))\<rparr>))))
                           | None \<Rightarrow>
                               (None,
                                file_Close e gz
                                  (gzip_Close e gz gz
                                     (w1\<lparr>fs := (fs w1)(gz \<mapsto> PartOf (Gzip gz b))\<rparr>))))))))"
  by (simp add: rotateLogFiles_def logRoot_def Let_def rotateLoop_shiftAll os_Stat_def
      os_IsNotExist_def os_Open_def os_Create_def io_Copy_def split: option.split)

lemma rotateLogFiles_notexist:
  assumes "fault e (OpStat (logRoot e g)) = None" and "fs w (logRoot e g) = None"
  shows "rotateLogFiles e g w =
           (None, w\<lparr>fs := shiftAll (logRoot e g) (globalLogFileCount g) (fs w)\<rparr>)"
  using assms by (simp add: rotateLogFiles_eq Let_def)

lemma closes_complete:
  assumes "fault e (OpGzipClose gz) = None" and "fault e (OpClose gz) = None"
  shows "file_Close e gz (gzip_Close e gz n (w\<lparr>fs := (fs w)(gz \<mapsto> PartOf s)\<rparr>)) =
           w\<lparr>fs := (fs w)(gz \<mapsto> s)\<rparr>"
  using assms by (simp add: file_Close_def gzip_Close_def)

lemma rotateLogFiles_present:
  assumes "fs w (logRoot e g) = Some b"
    and "fault e (OpOpen (logRoot e g)) = None"
    and "fault e (OpCreate (logRoot e g @ ''.1.gz'')) = None"
    and "fault e (OpCopy (logRoot e g) (logRoot e g @ ''.1.gz'')) = None"
  shows "rotateLogFiles e g w =
     (None,
      file_Close e (logRoot e g @ ''.1.gz'')
        (gzip_Close e (logRoot e g @ ''.1.gz'') (logRoot e g @ ''.1.gz'')
           (w\<lparr>fs := (shiftAll (logRoot e g) (globalLogFileCount g) (fs w))
                         (logRoot e g @ ''.1.gz'' \<mapsto>
                            PartOf (Gzip (logRoot e g @ ''.1.gz'') b))\<rparr>)))"
  using assms by (simp add: rotateLogFiles_eq Let_def)

lemma rotateLogFiles_complete:
  assumes "fs w (logRoot e g) = Some b"
    and "fault e (OpOpen (logRoot e g)) = None"
    and "fault e (OpCreate (logRoot e g @ ''.1.gz'')) = None"
    and "fault e (OpCopy (logRoot e g) (logRoot e g @ ''.1.gz'')) = None"
    and "fault e (OpGzipClose (logRoot e g @ ''.1.gz'')) = None"
    and "fault e (OpClose (logRoot e g @ ''.1.gz'')) = None"
  shows "rotateLogFiles e g w =
     (None,
      w\<lparr>fs := (shiftAll (logRoot e g) (globalLogFileCount g) (fs w))
                  (logRoot e g @ ''.1.gz'' \<mapsto> Gzip (logRoot e g @ ''.1.gz'') b)\<rparr>)"
proof -
  let ?gz = "logRoot e g @ ''.1.gz''"
  let ?w1 = "w\<lparr>fs := shiftAll (logRoot e g) (globalLogFileCount g) (fs w)\<rparr>"
  have "rotateLogFiles e g w =
      (None, file_Close e ?gz (gzip_Close e ?gz ?gz
               (?w1\<lparr>fs := (fs ?w1)(?gz \<mapsto> PartOf (Gzip ?gz b))\<rparr>)))"
    using rotateLogFiles_present [OF assms(1-4)] by simp
  also have "file_Close e ?gz (gzip_Close e ?gz ?gz
               (?w1\<lparr>fs := (fs ?w1)(?gz \<mapsto> PartOf (Gzip ?gz b))\<rparr>)) =
             ?w1\<lparr>fs := (fs ?w1)(?gz \<mapsto> Gzip ?gz b)\<rparr>"
    by (rule closes_complete [OF assms(5) assms(6)])
  finally show ?thesis by simp
qed

lemma rotateLogFiles_result:
  "fst (rotateLogFiles e g w) =
     (if fault e (OpStat (logRoot e g)) = None \<and> fs w (logRoot e g) = None then None
      else
        (case fault e (OpOpen (logRoot e g)) of
           Some x \<Rightarrow> Some x
         | None \<Rightarrow>
             if fs w (logRoot e g) = None then Some ''no such file or directory''
             else
               (case fault e (OpCreate (logRoot e g @ ''.1.gz'')) of
                  Some x \<Rightarrow> Some x
                | None \<Rightarrow> fault e (OpCopy (logRoot e g) (logRoot e g @ ''.1.gz'')))))"
  by (simp add: rotateLogFiles_eq Let_def split: option.split)

lemma rotateLogFiles_calls [simp]: "calls (snd (rotateLogFiles e g w)) = calls w"
  by (simp add: rotateLogFiles_eq Let_def split: option.split)

lemma rotateLogFiles_held [simp]: "held (snd (rotateLogFiles e g w)) = held w"
  by (simp add: rotateLogFiles_eq Let_def logError_def split: option.split)

lemma rotateLogFiles_noFaults: "noFaults e g \<Longrightarrow> fst (rotateLogFiles e g w) = None"
  by (auto simp add: rotateLogFiles_result noFaults_def)

section \<open>The whole of performBackup\<close>

lemma os_Create_calls [simp]: "calls (snd (os_Create e p w)) = calls w"
  by (simp add: os_Create_def split: option.split)

lemma performBackup_cases:
  "(\<exists>x w'. performBackup e g c w = (Returned (Some x), w') \<and> calls w' = calls w \<and> \<not> noFaults e g) \<or>
   (\<exists>w4. calls w4 = calls w \<and> performBackup e g c w = runPhases e g c (logFile e g) w4)"
proof -
  let ?w2 = "(snd (time_Now e w))\<lparr>stdout := stdout (snd (time_Now e w)) @
               [format_hms (fst (time_Now e w)) @ '' '' @ ''Rotating log files'']\<rparr>"
  obtain r w3 where rot: "rotateLogFiles e g ?w2 = (r, w3)" by (cases "rotateLogFiles e g ?w2")
  have c3: "calls w3 = calls w"
    using arg_cong [OF rot, of "\<lambda>p. calls (snd p)"] by simp
  obtain r' w4 where cr: "os_Create e (logFile e g) w3 = (r', w4)"
    by (cases "os_Create e (logFile e g) w3")
  have c4: "calls w4 = calls w"
    using arg_cong [OF cr, of "\<lambda>p. calls (snd p)"] by (simp add: c3)
  have pb: "performBackup e g c w =
      (case r of Some x \<Rightarrow> (Returned (Some x), w3)
       | None \<Rightarrow> (case r' of Some x \<Rightarrow> (Returned (Some x), logError e None (''Error: '' @ x) w4)
                  | None \<Rightarrow> runPhases e g c (logFile e g) w4))"
    using rot cr
    by (simp add: performBackup_def Let_def split_def logFile_def split: option.split)
  show ?thesis
  proof (cases r)
    case (Some x)
    then have "\<not> noFaults e g" using rotateLogFiles_noFaults [of e g ?w2] rot by auto
    then show ?thesis using Some pb c3 by simp
  next
    case None
    show ?thesis
    proof (cases r')
      case (Some x)
      then have "fault e (OpCreate (logFile e g)) = Some x"
        using cr by (simp add: os_Create_def split: option.splits)
      then have "\<not> noFaults e g" by (simp add: noFaults_def)
      then show ?thesis using Some None pb c4 by simp
    next
      case None
      then have "performBackup e g c w = runPhases e g c (logFile e g) w4"
        using \<open>r = None\<close> pb by simp
      with c4 show ?thesis by blast
    qed
  qed
qed

lemma performBackup_runs:
  assumes "noFaults e g"
  shows "runs e w (take (reach g c) (plan g c)) (reach g c < length (plan g c))
           (performBackup e g c w)"
proof -
  from performBackup_cases [of e g c w] assms obtain w4 where
    "calls w4 = calls w" "performBackup e g c w = runPhases e g c (logFile e g) w4"
    by blast
  then show ?thesis
    using runs_calls_eq [OF runs_runPhases [of e w4 g c "logFile e g"], of w] by simp
qed

lemma runs_trace:
  assumes "runs e w ps st (r, w')"
  shows "\<exists>ks. calls w' = calls w @ ks \<and> prefix (map fst ks) ps \<and>
          (\<forall>i<length ks. snd (ks ! i) \<noteq> None \<longrightarrow> Suc i = length ks \<and> r = Returned (snd (ks ! i))) \<and>
          (r = Returned None \<longrightarrow> map fst ks = ps \<and> \<not> st \<and> (\<forall>k\<in>set ks. snd k = None))"
proof -
  obtain h s where f: "follow e (calls w) ps = (h, s)" by (cases "follow e (calls w) ps")
  from assms have h: "calls w' = h" and r: "r = verdict st s" by (simp_all add: runs_def f)
  from follow_trace [OF f] obtain ks where
    k1: "h = calls w @ ks" and
    k2: "prefix (map fst ks) ps" and
    k3: "\<forall>i<length ks. snd (ks ! i) \<noteq> None \<longrightarrow> Suc i = length ks \<and> s = snd (ks ! i)" and
    k4: "s = None \<longrightarrow> map fst ks = ps \<and> (\<forall>k\<in>set ks. snd k = None)"
    by blast
  have c3: "\<forall>i<length ks. snd (ks ! i) \<noteq> None \<longrightarrow> Suc i = length ks \<and> r = Returned (snd (ks ! i))"
  proof (intro allI impI)
    fix i assume "i < length ks" "snd (ks ! i) \<noteq> None"
    with k3 have a: "Suc i = length ks" and b: "s = snd (ks ! i)" and "s \<noteq> None" by auto
    then show "Suc i = length ks \<and> r = Returned (snd (ks ! i))"
      by (auto simp add: r verdict_def)
  qed
  have c4: "r = Returned None \<longrightarrow> map fst ks = ps \<and> \<not> st \<and> (\<forall>k\<in>set ks. snd k = None)"
    using k4 by (auto simp add: r verdict_def split: option.splits if_splits)
  show ?thesis
    by (rule exI [of _ ks]) (intro conjI c3 c4 k2, simp add: h k1)
qed

lemma noFaults_env0 [simp]: "noFaults env0 g"
  by (simp add: noFaults_def env0_def)

lemma noFaults_env_fail2 [simp]: "noFaults env_fail2 g"
  by (simp add: noFaults_def env_fail2_def env0_def)

lemma performBackup_trace:
  assumes "performBackup e g c w = (r, w')"
  shows "\<exists>ks. calls w' = calls w @ ks \<and> prefix (map fst ks) (plan g c) \<and>
          (\<forall>i<length ks. snd (ks ! i) \<noteq> None \<longrightarrow>
             Suc i = length ks \<and> r = Returned (snd (ks ! i))) \<and>
          (r = Returned None \<longrightarrow> map fst ks = plan g c \<and> (\<forall>k\<in>set ks. snd k = None)) \<and>
          (noFaults e g \<and> (cmdCheck g \<longrightarrow> length (checkInfo c) \<le> length (pruneInfo c)) \<longrightarrow>
             calls w' = fst (follow e (calls w) (plan g c)) \<and>
             r = Returned (snd (follow e (calls w) (plan g c))))"
proof -
  have full: "noFaults e g \<and> (cmdCheck g \<longrightarrow> length (checkInfo c) \<le> length (pruneInfo c)) \<longrightarrow>
      calls w' = fst (follow e (calls w) (plan g c)) \<and>
      r = Returned (snd (follow e (calls w) (plan g c)))"
  proof
    assume a: "noFaults e g \<and> (cmdCheck g \<longrightarrow> length (checkInfo c) \<le> length (pruneInfo c))"
    then have nl: "\<not> reach g c < length (plan g c)" by (auto simp add: reach_less)
    from a have rp: "reach g c = length (plan g c)" by (auto simp add: reach_def)
    from a performBackup_runs [of e g w c] assms
    have "runs e w (plan g c) False (r, w')" by (simp add: rp nl)
    then show "calls w' = fst (follow e (calls w) (plan g c)) \<and>
      r = Returned (snd (follow e (calls w) (plan g c)))"
      by (simp add: runs_def verdict_def split: option.split)
  qed
  from performBackup_cases [of e g c w]
  show ?thesis
  proof
    assume "\<exists>x w''. performBackup e g c w = (Returned (Some x), w'') \<and> calls w'' = calls w \<and>
      \<not> noFaults e g"
    with assms obtain x where "r = Returned (Some x)" "calls w' = calls w" "\<not> noFaults e g"
      by auto
    then show ?thesis by (intro exI [of _ "[]"]) simp
  next
    assume "\<exists>w4. calls w4 = calls w \<and> performBackup e g c w = runPhases e g c (logFile e g) w4"
    then obtain w4 where c4: "calls w4 = calls w"
      and pb: "performBackup e g c w = runPhases e g c (logFile e g) w4" by blast
    have "runs e w (take (reach g c) (plan g c)) (reach g c < length (plan g c)) (r, w')"
      using runs_calls_eq [OF runs_runPhases [of e w4 g c "logFile e g"], of w] c4 pb assms
      by simp
    from runs_trace [OF this] obtain ks where
      k1: "calls w' = calls w @ ks" and
      k2: "prefix (map fst ks) (take (reach g c) (plan g c))" and
      k3: "\<forall>i<length ks. snd (ks ! i) \<noteq> None \<longrightarrow> Suc i = length ks \<and> r = Returned (snd (ks ! i))" and
      k4: "r = Returned None \<longrightarrow> map fst ks = take (reach g c) (plan g c) \<and>
             \<not> reach g c < length (plan g c) \<and> (\<forall>k\<in>set ks. snd k = None)"
      by blast
    have c2: "prefix (map fst ks) (plan g c)"
      using k2 take_is_prefix [of "reach g c" "plan g c"] by (rule prefix_order.trans)
    have c4: "r = Returned None \<longrightarrow> map fst ks = plan g c \<and> (\<forall>k\<in>set ks. snd k = None)"
      using k4 by auto
    show ?thesis
      by (rule exI [of _ ks]) (intro conjI k1 c2 k3 c4 full)
  qed
qed

section \<open>The lock and the exit code\<close>

lemma performBackup_result:
  assumes "noFaults e g"
  shows "fst (performBackup e g c w) =
           verdict (reach g c < length (plan g c))
             (snd (follow e (calls w) (take (reach g c) (plan g c))))"
  using performBackup_runs [OF assms, of w c] by (simp add: runs_def)

lemma TryLock_result:
  "TryLock e p w =
     (case fault e (OpLock p) of
        Some x \<Rightarrow> (Inl x, w)
      | None \<Rightarrow>
          if lockedElsewhere e p
          then (Inr False, if fs w p = None then w\<lparr>fs := (fs w)(p \<mapsto> Plain [])\<rparr> else w)
          else (Inr True, acquire p w))"
  by (simp add: TryLock_def acquire_def Let_def split: option.split)

lemma obtainLock_result:
  "obtainLock e g c w =
     (case fault e (OpLock (lockfilePath e g)) of
        Some x \<Rightarrow> (Returned 201, logError e None (''Error: '' @ x) w)
      | None \<Rightarrow>
          if lockedElsewhere e (lockfilePath e g)
          then (Returned 200,
                logError e None
                  (''Error: '' @ ''unable to obtain lock using lockfile: '' @ lockfilePath e g)
                  (if fs w (lockfilePath e g) = None
                   then w\<lparr>fs := (fs w)(lockfilePath e g \<mapsto> Plain [])\<rparr> else w))
          else
            (case fst (performBackup e g c (acquire (lockfilePath e g) w)) of
               Returned None \<Rightarrow> Returned 0
             | Returned (Some x) \<Rightarrow> Returned 500
             | Panicked m \<Rightarrow> Panicked m,
             os_Remove (lockfilePath e g)
               (Unlock (lockfilePath e g)
                  (snd (performBackup e g c (acquire (lockfilePath e g) w))))))"
  unfolding obtainLock_def lockfilePath_def Let_def TryLock_result
  by (simp add: split_def split: option.split outcome.split)

lemma main_code:
  assumes "cmdBackup g \<or> cmdPrune g \<or> cmdCheck g"
  shows "fst (main e g c w) =
     (case fault e (OpLock (lockfilePath e g)) of
        Some x \<Rightarrow> 201
      | None \<Rightarrow>
          if lockedElsewhere e (lockfilePath e g) then 200
          else (case fst (performBackup e g c (acquire (lockfilePath e g) w)) of
                  Returned None \<Rightarrow> 0
                | Returned (Some x) \<Rightarrow> 500
                | Panicked m \<Rightarrow> 2))"
  using assms
  by (auto simp add: main_def obtainLock_result split: option.split outcome.split)

lemma main_calls:
  assumes "cmdBackup g \<or> cmdPrune g \<or> cmdCheck g"
  shows "calls (snd (main e g c w)) =
     (if fault e (OpLock (lockfilePath e g)) = None \<and> \<not> lockedElsewhere e (lockfilePath e g)
      then calls (snd (performBackup e g c (acquire (lockfilePath e g) w)))
      else calls w)"
  using assms
  by (auto simp add: main_def obtainLock_result os_Remove_def Unlock_def
      split: option.split outcome.split)

lemma acquire_calls [simp]: "calls (acquire p w) = calls w"
  by (simp add: acquire_def)

lemma exit_code_cases:
  assumes sel: "cmdBackup g \<or> cmdPrune g \<or> cmdCheck g" and m: "main e g c w = (code, w')"
  shows "(fault e (OpLock (lockfilePath e g)) \<noteq> None \<longrightarrow> code = 201 \<and> calls w' = calls w) \<and>
     (fault e (OpLock (lockfilePath e g)) = None \<and> lockedElsewhere e (lockfilePath e g) \<longrightarrow>
        code = 200 \<and> calls w' = calls w) \<and>
     (fault e (OpLock (lockfilePath e g)) = None \<and> \<not> lockedElsewhere e (lockfilePath e g) \<longrightarrow>
        (\<exists>ks. calls w' = calls w @ ks \<and>
           ((\<exists>k\<in>set ks. snd k \<noteq> None) \<longrightarrow> code = 500) \<and>
           (code = 0 \<longrightarrow> map fst ks = plan g c \<and> (\<forall>k\<in>set ks. snd k = None)) \<and>
           (\<not> (cmdCheck g \<and> length (pruneInfo c) < length (checkInfo c)) \<longrightarrow>
              (code = 0 \<or> code = 500) \<and>
              (noFaults e g \<longrightarrow> (code = 0) = (snd (follow e (calls w) (plan g c)) = None)))))"
proof -
  let ?lf = "lockfilePath e g"
  have code: "code = fst (main e g c w)" and w': "w' = snd (main e g c w)" by (simp_all add: m)
  note mc = main_code [OF sel, of e c w] and ml = main_calls [OF sel, of e c w]
  have a: "fault e (OpLock ?lf) \<noteq> None \<longrightarrow> code = 201 \<and> calls w' = calls w"
    using mc ml by (auto simp add: code w')
  have b: "fault e (OpLock ?lf) = None \<and> lockedElsewhere e ?lf \<longrightarrow> code = 200 \<and> calls w' = calls w"
    using mc ml by (auto simp add: code w')
  have c: "fault e (OpLock ?lf) = None \<and> \<not> lockedElsewhere e ?lf \<longrightarrow>
        (\<exists>ks. calls w' = calls w @ ks \<and>
           ((\<exists>k\<in>set ks. snd k \<noteq> None) \<longrightarrow> code = 500) \<and>
           (code = 0 \<longrightarrow> map fst ks = plan g c \<and> (\<forall>k\<in>set ks. snd k = None)) \<and>
           (\<not> (cmdCheck g \<and> length (pruneInfo c) < length (checkInfo c)) \<longrightarrow>
              (code = 0 \<or> code = 500) \<and>
              (noFaults e g \<longrightarrow> (code = 0) = (snd (follow e (calls w) (plan g c)) = None))))"
  proof
    assume l: "fault e (OpLock ?lf) = None \<and> \<not> lockedElsewhere e ?lf"
    obtain r w2 where pb: "performBackup e g c (acquire ?lf w) = (r, w2)"
      by (cases "performBackup e g c (acquire ?lf w)")
    have cr: "code = (case r of Returned None \<Rightarrow> 0 | Returned (Some x) \<Rightarrow> 500 | Panicked m \<Rightarrow> 2)"
      using mc l by (simp add: code pb)
    have cw: "calls w' = calls w2" using ml l by (simp add: w' pb)
    have "\<exists>ks. calls w2 = calls w @ ks \<and> prefix (map fst ks) (plan g c) \<and>
       (\<forall>i<length ks. snd (ks ! i) \<noteq> None \<longrightarrow>
          Suc i = length ks \<and> r = Returned (snd (ks ! i))) \<and>
       (r = Returned None \<longrightarrow> map fst ks = plan g c \<and> (\<forall>k\<in>set ks. snd k = None)) \<and>
       (noFaults e g \<and> (cmdCheck g \<longrightarrow> length (checkInfo c) \<le> length (pruneInfo c)) \<longrightarrow>
          calls w2 = fst (follow e (calls w) (plan g c)) \<and>
          r = Returned (snd (follow e (calls w) (plan g c))))"
      using performBackup_trace [OF pb] by (simp only: acquire_calls)
    then obtain ks where ks:
      "calls w2 = calls w @ ks \<and> prefix (map fst ks) (plan g c) \<and>
       (\<forall>i<length ks. snd (ks ! i) \<noteq> None \<longrightarrow>
          Suc i = length ks \<and> r = Returned (snd (ks ! i))) \<and>
       (r = Returned None \<longrightarrow> map fst ks = plan g c \<and> (\<forall>k\<in>set ks. snd k = None)) \<and>
       (noFaults e g \<and> (cmdCheck g \<longrightarrow> length (checkInfo c) \<le> length (pruneInfo c)) \<longrightarrow>
          calls w2 = fst (follow e (calls w) (plan g c)) \<and>
          r = Returned (snd (follow e (calls w) (plan g c))))" ..
    note k1 = ks [THEN conjunct1]
      and k3 = ks [THEN conjunct2, THEN conjunct2, THEN conjunct1]
      and k4 = ks [THEN conjunct2, THEN conjunct2, THEN conjunct2, THEN conjunct1]
      and k5 = ks [THEN conjunct2, THEN conjunct2, THEN conjunct2, THEN conjunct2]
    have c1: "(\<exists>k\<in>set ks. snd k \<noteq> None) \<longrightarrow> code = 500"
    proof
      assume "\<exists>k\<in>set ks. snd k \<noteq> None"
      then obtain i where "i < length ks" "snd (ks ! i) \<noteq> None"
        by (auto simp add: in_set_conv_nth)
      with k3 have "r = Returned (snd (ks ! i))" "snd (ks ! i) \<noteq> None" by auto
      then show "code = 500" by (auto simp add: cr)
    qed
    have c2: "code = 0 \<longrightarrow> map fst ks = plan g c \<and> (\<forall>k\<in>set ks. snd k = None)"
      using k4 by (auto simp add: cr split: outcome.splits option.splits)
    have c3: "\<not> (cmdCheck g \<and> length (pruneInfo c) < length (checkInfo c)) \<longrightarrow>
              (code = 0 \<or> code = 500) \<and>
              (noFaults e g \<longrightarrow> (code = 0) = (snd (follow e (calls w) (plan g c)) = None))"
    proof
      assume np: "\<not> (cmdCheck g \<and> length (pruneInfo c) < length (checkInfo c))"
      have "\<not> (\<exists>m. r = Panicked m)"
      proof
        assume "\<exists>m. r = Panicked m"
        then obtain m where rm: "r = Panicked m" by blast
        from performBackup_cases [of e g c "acquire ?lf w"]
        obtain w4 where "performBackup e g c (acquire ?lf w) = runPhases e g c (logFile e g) w4"
          using pb rm by auto
        with runs_runPhases [of e w4 g c "logFile e g"] pb
        have "r = verdict (reach g c < length (plan g c))
                    (snd (follow e (calls w4) (take (reach g c) (plan g c))))"
          by (simp add: runs_def)
        with np rm show False
          by (simp add: reach_less verdict_def split: option.splits if_splits)
      qed
      then have d1: "code = 0 \<or> code = 500"
        by (auto simp add: cr split: outcome.splits option.splits)
      have d2: "noFaults e g \<longrightarrow> (code = 0) = (snd (follow e (calls w) (plan g c)) = None)"
        using k5 np by (auto simp add: cr split: option.splits)
      from d1 d2 show "(code = 0 \<or> code = 500) \<and>
              (noFaults e g \<longrightarrow> (code = 0) = (snd (follow e (calls w) (plan g c)) = None))" ..
    qed
    show "\<exists>ks. calls w' = calls w @ ks \<and>
           ((\<exists>k\<in>set ks. snd k \<noteq> None) \<longrightarrow> code = 500) \<and>
           (code = 0 \<longrightarrow> map fst ks = plan g c \<and> (\<forall>k\<in>set ks. snd k = None)) \<and>
           (\<not> (cmdCheck g \<and> length (pruneInfo c) < length (checkInfo c)) \<longrightarrow>
              (code = 0 \<or> code = 500) \<and>
              (noFaults e g \<longrightarrow> (code = 0) = (snd (follow e (calls w) (plan g c)) = None)))"
      by (rule exI [of _ ks]) (intro conjI c1 c2 c3, simp add: cw k1)
  qed
  from a b c show ?thesis by (intro conjI)
qed

lemma plan_config3:
  "plan globals0 config3 =
     [(''/bin/duplicacy'', [''backup'', ''-storage'', ''b1'', ''-threads'', ''4'', ''-stats''], ''/repo''),
      (''/bin/duplicacy'', [''backup'', ''-storage'', ''b2'', ''-threads'', ''4'', ''-stats''], ''/repo''),
      (''/bin/duplicacy'', [''backup'', ''-storage'', ''b3'', ''-threads'', ''4'', ''-stats''], ''/repo'')]"
  by (simp add: plan_def globals0_def config3_def config1_def invocationOf_def backupArgs_def
      storage_def at_def)

lemma plan_config1:
  "plan globals0 config1 =
     [(''/bin/duplicacy'', [''backup'', ''-storage'', ''b2'', ''-threads'', ''4'', ''-stats''], ''/repo'')]"
  by (simp add: plan_def globals0_def config1_def invocationOf_def backupArgs_def storage_def at_def)

lemma plan_config_B:
  "plan globals_check config_B =
     [(''/bin/duplicacy'', [''check'', ''-storage'', ''B'', ''-all''], ''/repo'')]"
  by (simp add: plan_def globals_check_def globals0_def config_B_def config1_def invocationOf_def
      checkArgs_def at_def)

lemma reach_samples:
  "reach globals0 config3 = 3" "reach globals0 config1 = 1" "reach globals_check config_B = 0"
  by (simp_all add: reach_def plan_config3 plan_config1 plan_config_B)
     (simp_all add: globals0_def globals_check_def config_B_def config1_def)

lemma follow_fail2_config3:
  "snd (follow env_fail2 [] (plan globals0 config3)) = Some ''exit status 1''"
  unfolding plan_config3 by (simp add: env_fail2_def env0_def)

lemma follow_env0_config1: "snd (follow env0 [] (plan globals0 config1)) = None"
  unfolding plan_config1 by (simp add: env0_def)

lemma lock_samples:
  "fault env0 op = None" "\<not> lockedElsewhere env0 p"
  "fault env_fail2 op = None" "\<not> lockedElsewhere env_fail2 p"
  "fault env_busy op = None" "lockedElsewhere env_busy p"
  "fault env_nolock (OpLock p) = Some ''permission denied''"
  by (simp_all add: env0_def env_fail2_def env_busy_def env_nolock_def)

lemma selected_samples:
  "cmdBackup globals0" "\<not> cmdCheck globals0" "cmdCheck globals_check"
  by (simp_all add: globals0_def globals_check_def)

lemma performBackup_fail2_config3:
  "calls w = [] \<Longrightarrow> fst (performBackup env_fail2 globals0 config3 w) = Returned (Some ''exit status 1'')"
proof -
  assume w: "calls w = []"
  have "fst (performBackup env_fail2 globals0 config3 w) =
      verdict (reach globals0 config3 < length (plan globals0 config3))
        (snd (follow env_fail2 [] (take (reach globals0 config3) (plan globals0 config3))))"
    by (simp add: performBackup_result w)
  also have "take (reach globals0 config3) (plan globals0 config3) = plan globals0 config3"
    by (simp add: reach_samples plan_config3)
  finally show ?thesis
    by (simp add: follow_fail2_config3 verdict_def)
qed

lemma performBackup_env0_config1:
  "calls w = [] \<Longrightarrow> fst (performBackup env0 globals0 config1 w) = Returned None"
proof -
  assume w: "calls w = []"
  have "fst (performBackup env0 globals0 config1 w) =
      verdict (reach globals0 config1 < length (plan globals0 config1))
        (snd (follow env0 [] (take (reach globals0 config1) (plan globals0 config1))))"
    by (simp add: performBackup_result w)
  also have "take (reach globals0 config1) (plan globals0 config1) = plan globals0 config1"
    by (simp add: reach_samples plan_config1)
  finally have "fst (performBackup env0 globals0 config1 w) =
      verdict (reach globals0 config1 < length (plan globals0 config1)) None"
    by (simp only: follow_env0_config1)
  moreover have "\<not> reach globals0 config1 < length (plan globals0 config1)"
    by (simp add: reach_samples plan_config1)
  ultimately show ?thesis
    by (simp add: verdict_def)
qed

lemma performBackup_env0_config_B:
  "fst (performBackup env0 globals_check config_B w) =
     Panicked ''runtime error: index out of range''"
  by (simp add: performBackup_result reach_samples plan_config_B verdict_def)

text \<open>
  C3, as the code has it. \<^verbatim>\<open>main\<close> hands the result of \<^verbatim>\<open>obtainLock\<close> to \<^verbatim>\<open>os.Exit\<close> as
  it is. An error of the lock mechanism gives 201 and a lock held by another process
  gives 200, and in both cases no subprocess is run. Once the lock is taken, a failed
  subprocess gives 500; the value 0 is given only when the whole plan has been run with
  success; and where the check list is not longer than the prune list the value is 0
  or 500, and, when no file operation fails, it is 0 exactly when the fail-fast execution
  of the plan meets no failure.
\<close>

theorem exit_codes:
  assumes "cmdBackup g \<or> cmdPrune g \<or> cmdCheck g" and "main e g c w = (code, w')"
  shows "(fault e (OpLock (lockfilePath e g)) \<noteq> None \<longrightarrow> code = 201 \<and> calls w' = calls w) \<and>
     (fault e (OpLock (lockfilePath e g)) = None \<and> lockedElsewhere e (lockfilePath e g) \<longrightarrow>
        code = 200 \<and> calls w' = calls w) \<and>
     (fault e (OpLock (lockfilePath e g)) = None \<and> \<not> lockedElsewhere e (lockfilePath e g) \<longrightarrow>
        (\<exists>ks. calls w' = calls w @ ks \<and>
           ((\<exists>k\<in>set ks. snd k \<noteq> None) \<longrightarrow> code = 500) \<and>
           (code = 0 \<longrightarrow> map fst ks = plan g c \<and> (\<forall>k\<in>set ks. snd k = None)) \<and>
           (\<not> (cmdCheck g \<and> length (pruneInfo c) < length (checkInfo c)) \<longrightarrow>
              (code = 0 \<or> code = 500) \<and>
              (noFaults e g \<longrightarrow> (code = 0) = (snd (follow e (calls w) (plan g c)) = None)))))"
  using assms by (rule exit_code_cases)

text \<open>
  C3 on four runs: one backup that succeeds, three backups of which the second fails, a
  lock held by another process, and a lock file that cannot be opened.
\<close>

theorem exit_codes_witness:
  "fst (main env0 globals0 config1 world0) = 0 \<and>
   fst (main env_fail2 globals0 config3 world0) = 500 \<and>
   fst (main env_busy globals0 config1 world0) = 200 \<and>
   fst (main env_nolock globals0 config1 world0) = 201"
proof -
  have sel: "cmdBackup globals0 \<or> cmdPrune globals0 \<or> cmdCheck globals0"
    by (simp add: selected_samples)
  have w0: "calls world0 = []" by (simp add: world0_def)
  obtain c1 w1 where m1: "main env0 globals0 config1 world0 = (c1, w1)"
    by (cases "main env0 globals0 config1 world0")
  obtain c2 w2 where m2: "main env_fail2 globals0 config3 world0 = (c2, w2)"
    by (cases "main env_fail2 globals0 config3 world0")
  obtain c3 w3 where m3: "main env_busy globals0 config1 world0 = (c3, w3)"
    by (cases "main env_busy globals0 config1 world0")
  obtain c4 w4 where m4: "main env_nolock globals0 config1 world0 = (c4, w4)"
    by (cases "main env_nolock globals0 config1 world0")
  have "c1 = 0"
    using exit_codes [OF sel m1]
    by (simp add: lock_samples selected_samples w0 follow_env0_config1)
  moreover have "c2 = 500"
    using exit_codes [OF sel m2]
    by (auto simp add: lock_samples selected_samples w0 follow_fail2_config3)
  moreover have "c3 = 200"
    using exit_codes [OF sel m3] by (simp add: lock_samples)
  moreover have "c4 = 201"
    using exit_codes [OF sel m4] by (simp add: lock_samples)
  ultimately show ?thesis by (simp add: m1 m2 m3 m4)
qed

text \<open>
  C3, as the specification words it, fails: when the pipeline fails the value handed to
  \<^verbatim>\<open>os.Exit\<close> is 500, not 1.
\<close>

theorem exit_code_one_counterexample:
  "fst (main env_fail2 globals0 config3 world0) = 500 \<and>
   fst (main env_fail2 globals0 config3 world0) \<noteq> 1"
  by (simp add: main_code selected_samples lock_samples performBackup_fail2_config3 world0_def)

text \<open>
  C4. When \<^verbatim>\<open>obtainLock\<close> takes the lock, \<^verbatim>\<open>performBackup\<close> runs in a world where the lock
  file exists and the lock is held, and whatever it does (return success, return an
  error, panic) the lock is released and the lock file removed afterwards: in the world
  \<^verbatim>\<open>obtainLock\<close> leaves, the lock file is absent and the lock is not held.
\<close>

theorem lock_released:
  assumes "fault e (OpLock (lockfilePath e g)) = None"
    and "\<not> lockedElsewhere e (lockfilePath e g)"
    and "obtainLock e g c w = (r, w')"
  shows "lockfilePath e g \<in> set (held (acquire (lockfilePath e g) w)) \<and>
     fs (acquire (lockfilePath e g) w) (lockfilePath e g) \<noteq> None \<and>
     w' = os_Remove (lockfilePath e g)
            (Unlock (lockfilePath e g)
               (snd (performBackup e g c (acquire (lockfilePath e g) w)))) \<and>
     fs w' (lockfilePath e g) = None \<and> lockfilePath e g \<notin> set (held w') \<and>
     (r = Returned 0 \<or> r = Returned 500 \<or> (\<exists>m. r = Panicked m))"
proof -
  let ?lf = "lockfilePath e g"
  let ?pb = "performBackup e g c (acquire ?lf w)"
  from assms have r: "r = (case fst ?pb of Returned None \<Rightarrow> Returned 0
       | Returned (Some x) \<Rightarrow> Returned 500 | Panicked m \<Rightarrow> Panicked m)"
    and w': "w' = os_Remove ?lf (Unlock ?lf (snd ?pb))"
    by (simp_all add: obtainLock_result)
  have a: "?lf \<in> set (held (acquire ?lf w))" "fs (acquire ?lf w) ?lf \<noteq> None"
    by (simp_all add: acquire_def)
  have b: "fs w' ?lf = None" "?lf \<notin> set (held w')"
    by (simp_all add: w' os_Remove_def Unlock_def)
  have c: "r = Returned 0 \<or> r = Returned 500 \<or> (\<exists>m. r = Panicked m)"
    by (simp add: r split: outcome.split option.split)
  from a b c w' show ?thesis by (intro conjI)
qed

text \<open>
  C4 on three runs that take the lock: one that succeeds, one where a backup fails, and
  one where the check loop panics.
\<close>

theorem lock_released_witness:
  "fs (snd (obtainLock env0 globals0 config1 world0)) ''/lock/job.lock'' = None \<and>
   ''/lock/job.lock'' \<notin> set (held (snd (obtainLock env0 globals0 config1 world0))) \<and>
   fst (obtainLock env0 globals0 config1 world0) = Returned 0 \<and>
   fs (snd (obtainLock env_fail2 globals0 config3 world0)) ''/lock/job.lock'' = None \<and>
   ''/lock/job.lock'' \<notin> set (held (snd (obtainLock env_fail2 globals0 config3 world0))) \<and>
   fst (obtainLock env_fail2 globals0 config3 world0) = Returned 500 \<and>
   fs (snd (obtainLock env0 globals_check config_B world0)) ''/lock/job.lock'' = None \<and>
   ''/lock/job.lock'' \<notin> set (held (snd (obtainLock env0 globals_check config_B world0))) \<and>
   fst (obtainLock env0 globals_check config_B world0) =
     Panicked ''runtime error: index out of range''"
proof -
  have lf: "lockfilePath env0 globals0 = ''/lock/job.lock''"
    "lockfilePath env_fail2 globals0 = ''/lock/job.lock''"
    "lockfilePath env0 globals_check = ''/lock/job.lock''"
    by (simp_all add: lockfilePath_def env0_def env_fail2_def globals0_def globals_check_def)
  obtain r1 w1 where o1: "obtainLock env0 globals0 config1 world0 = (r1, w1)"
    by (cases "obtainLock env0 globals0 config1 world0")
  obtain r2 w2 where o2: "obtainLock env_fail2 globals0 config3 world0 = (r2, w2)"
    by (cases "obtainLock env_fail2 globals0 config3 world0")
  obtain r3 w3 where o3: "obtainLock env0 globals_check config_B world0 = (r3, w3)"
    by (cases "obtainLock env0 globals_check config_B world0")
  have r1: "r1 = Returned 0"
    using arg_cong [OF o1, of fst]
    by (simp add: obtainLock_result lock_samples performBackup_env0_config1 world0_def)
  have r2: "r2 = Returned 500"
    using arg_cong [OF o2, of fst]
    by (simp add: obtainLock_result lock_samples performBackup_fail2_config3 world0_def)
  have r3: "r3 = Panicked ''runtime error: index out of range''"
    using arg_cong [OF o3, of fst]
    by (simp add: obtainLock_result lock_samples performBackup_env0_config_B)
  have "fs w1 ''/lock/job.lock'' = None \<and> ''/lock/job.lock'' \<notin> set (held w1)"
    using lock_released [OF lock_samples(1) lock_samples(2) o1]
    by (simp add: lf os_Remove_def Unlock_def)
  moreover have "fs w2 ''/lock/job.lock'' = None \<and> ''/lock/job.lock'' \<notin> set (held w2)"
    using lock_released [OF lock_samples(3) lock_samples(4) o2]
    by (simp add: lf os_Remove_def Unlock_def)
  moreover have "fs w3 ''/lock/job.lock'' = None \<and> ''/lock/job.lock'' \<notin> set (held w3)"
    using lock_released [OF lock_samples(1) lock_samples(2) o3]
    by (simp add: lf os_Remove_def Unlock_def)
  ultimately show ?thesis by (simp add: o1 o2 o3 r1 r2 r3)
qed

section \<open>The check loop reads the prune list\<close>

lemma plan_config_ABC:
  "plan globals_check config_ABC =
     [(''/bin/duplicacy'', [''check'', ''-storage'', ''B'', ''-all''], ''/repo''),
      (''/bin/duplicacy'', [''check'', ''-storage'', ''C'', ''-all''], ''/repo'')]"
  by (simp add: plan_def globals_check_def globals0_def config_ABC_def config1_def invocationOf_def
      checkArgs_def at_def)

lemma reach_config_ABC: "reach globals_check config_ABC = 1"
  by (simp add: reach_def plan_config_ABC)
     (simp add: globals_check_def config_ABC_def config1_def)

lemma performBackup_env0_config_ABC:
  "calls w = [] \<Longrightarrow>
   fst (performBackup env0 globals_check config_ABC w) =
     Panicked ''runtime error: index out of range'' \<and>
   calls (snd (performBackup env0 globals_check config_ABC w)) =
     [((''/bin/duplicacy'', [''check'', ''-storage'', ''B'', ''-all''], ''/repo''), None)]"
proof -
  assume w: "calls w = []"
  have f: "follow env0 [] (take (reach globals_check config_ABC) (plan globals_check config_ABC)) =
      ([((''/bin/duplicacy'', [''check'', ''-storage'', ''B'', ''-all''], ''/repo''), None)], None)"
    by (simp add: reach_config_ABC plan_config_ABC env0_def)
  have lt: "reach globals_check config_ABC < length (plan globals_check config_ABC)"
    by (simp add: reach_config_ABC plan_config_ABC)
  have "runs env0 w (take (reach globals_check config_ABC) (plan globals_check config_ABC))
      (reach globals_check config_ABC < length (plan globals_check config_ABC))
      (performBackup env0 globals_check config_ABC w)"
    by (rule performBackup_runs) simp
  then show ?thesis
    unfolding runs_def w f using lt by (simp add: verdict_def)
qed

text \<open>
  C2 at a configuration with one prune operation and two check operations, run with
  the check phase alone and an engine that always succeeds: the plan has two
  operations, the check of storage B is run, and then the check loop indexes the prune
  list out of range. \<^verbatim>\<open>performBackup\<close> panics: the check of storage C is never run,
  although no subprocess has failed, and no failure outcome is returned.
\<close>

theorem check_loop_cuts_the_plan_short:
  "plan globals_check config_ABC =
     [(''/bin/duplicacy'', [''check'', ''-storage'', ''B'', ''-all''], ''/repo''),
      (''/bin/duplicacy'', [''check'', ''-storage'', ''C'', ''-all''], ''/repo'')] \<and>
   calls (snd (performBackup env0 globals_check config_ABC world0)) =
     [((''/bin/duplicacy'', [''check'', ''-storage'', ''B'', ''-all''], ''/repo''), None)] \<and>
   fst (performBackup env0 globals_check config_ABC world0) =
     Panicked ''runtime error: index out of range''"
  by (simp add: plan_config_ABC performBackup_env0_config_ABC world0_def)

text \<open>
  C10 at a configuration with one check operation and no prune operation, run with the
  check phase alone: the check loop indexes the empty prune list, \<^verbatim>\<open>performBackup\<close>
  panics, and the program ends with status 2.
\<close>

theorem check_loop_panics:
  "fst (performBackup env0 globals_check config_B world0) =
     Panicked ''runtime error: index out of range'' \<and>
   fst (main env0 globals_check config_B world0) = 2"
  by (simp add: main_code selected_samples lock_samples performBackup_env0_config_B)

text \<open>
  C9 at a configuration with one prune operation on storage A and one check operation
  on storage B, run with the check phase alone: the narration of the check operation
  names storage A, and the engine is called for storage B.
\<close>

theorem check_narration_names_prune_storage:
  "stdout (snd (checkPhase env0 globals_check config_AB ''/log/job.log'' world0)) =
     [''12:34:58 Checking storage A''] \<and>
   calls (snd (checkPhase env0 globals_check config_AB ''/log/job.log'' world0)) =
     [((''/bin/duplicacy'', [''check'', ''-storage'', ''B'', ''-all''], ''/repo''), None)]"
  by (simp add: checkPhase_def runCommand_def Executor_def logMessage_def logFMessage_def
      logger_Println_def appendFile_def time_Now_def env0_def globals_check_def globals0_def
      world0_def config_AB_def config1_def Let_def checkArgs_def at_def format_hms_def
      two_digits_def digit_def hashes_def newline_def)

section \<open>What a rotation does\<close>

lemma gzip_Close_fs_other [simp]: "p \<noteq> q \<Longrightarrow> fs (gzip_Close e q n w) p = fs w p"
  by (simp add: gzip_Close_def split: option.split)

lemma file_Close_fs_other [simp]: "p \<noteq> q \<Longrightarrow> fs (file_Close e q w) p = fs w p"
  by (simp add: file_Close_def split: option.split)

lemma rotateLogFiles_fs_other:
  "p \<noteq> logRoot e g @ ''.1.gz'' \<Longrightarrow>
   fs (snd (rotateLogFiles e g w)) p = shiftAll (logRoot e g) (globalLogFileCount g) (fs w) p"
  by (simp add: rotateLogFiles_eq Let_def logError_def split: option.split)

lemma rotateLogFiles_steps:
  assumes "rotateLogFiles e g w = (r, w')"
  shows "(\<forall>p. p \<noteq> logRoot e g @ ''.1.gz'' \<longrightarrow>
            fs w' p = shiftAll (logRoot e g) (globalLogFileCount g) (fs w) p) \<and>
     (fault e (OpStat (logRoot e g)) = None \<and> fs w (logRoot e g) = None \<longrightarrow>
        r = None \<and> w' = w\<lparr>fs := shiftAll (logRoot e g) (globalLogFileCount g) (fs w)\<rparr>) \<and>
     (\<forall>b. fs w (logRoot e g) = Some b \<and> fault e (OpOpen (logRoot e g)) = None \<and>
          fault e (OpCreate (logRoot e g @ ''.1.gz'')) = None \<and>
          fault e (OpCopy (logRoot e g) (logRoot e g @ ''.1.gz'')) = None \<and>
          fault e (OpGzipClose (logRoot e g @ ''.1.gz'')) = None \<and>
          fault e (OpClose (logRoot e g @ ''.1.gz'')) = None \<longrightarrow>
        r = None \<and>
        w' = w\<lparr>fs := (shiftAll (logRoot e g) (globalLogFileCount g) (fs w))
                      (logRoot e g @ ''.1.gz'' \<mapsto> Gzip (logRoot e g @ ''.1.gz'') b)\<rparr>) \<and>
     ((fault e (OpStat (logRoot e g)) \<noteq> None \<or> fs w (logRoot e g) \<noteq> None) \<and>
        (fault e (OpOpen (logRoot e g)) \<noteq> None \<or> fs w (logRoot e g) = None \<or>
         fault e (OpCreate (logRoot e g @ ''.1.gz'')) \<noteq> None \<or>
         fault e (OpCopy (logRoot e g) (logRoot e g @ ''.1.gz'')) \<noteq> None) \<longrightarrow>
        r \<noteq> None)"
proof -
  have r: "r = fst (rotateLogFiles e g w)" and w': "w' = snd (rotateLogFiles e g w)"
    by (simp_all add: assms)
  have a: "\<forall>p. p \<noteq> logRoot e g @ ''.1.gz'' \<longrightarrow>
            fs w' p = shiftAll (logRoot e g) (globalLogFileCount g) (fs w) p"
    by (simp add: w' rotateLogFiles_fs_other)
  have b: "fault e (OpStat (logRoot e g)) = None \<and> fs w (logRoot e g) = None \<longrightarrow>
        r = None \<and> w' = w\<lparr>fs := shiftAll (logRoot e g) (globalLogFileCount g) (fs w)\<rparr>"
    by (simp add: r w' rotateLogFiles_notexist)
  have c: "\<forall>b. fs w (logRoot e g) = Some b \<and> fault e (OpOpen (logRoot e g)) = None \<and>
          fault e (OpCreate (logRoot e g @ ''.1.gz'')) = None \<and>
          fault e (OpCopy (logRoot e g) (logRoot e g @ ''.1.gz'')) = None \<and>
          fault e (OpGzipClose (logRoot e g @ ''.1.gz'')) = None \<and>
          fault e (OpClose (logRoot e g @ ''.1.gz'')) = None \<longrightarrow>
        r = None \<and>
        w' = w\<lparr>fs := (shiftAll (logRoot e g) (globalLogFileCount g) (fs w))
                      (logRoot e g @ ''.1.gz'' \<mapsto> Gzip (logRoot e g @ ''.1.gz'') b)\<rparr>"
    by (simp add: r w' rotateLogFiles_complete)
  have d: "(fault e (OpStat (logRoot e g)) \<noteq> None \<or> fs w (logRoot e g) \<noteq> None) \<and>
        (fault e (OpOpen (logRoot e g)) \<noteq> None \<or> fs w (logRoot e g) = None \<or>
         fault e (OpCreate (logRoot e g @ ''.1.gz'')) \<noteq> None \<or>
         fault e (OpCopy (logRoot e g) (logRoot e g @ ''.1.gz'')) \<noteq> None) \<longrightarrow>
        r \<noteq> None"
    by (auto simp add: r rotateLogFiles_result split: option.split)
  from a b c d show ?thesis by (intro conjI)
qed

lemma digit_inj: "digit m = digit n \<Longrightarrow> m mod 10 = n mod 10"
proof -
  assume a: "digit m = digit n"
  have d: "distinct ''0123456789''" by simp
  have "m mod 10 < length ''0123456789''" "n mod 10 < length ''0123456789''" by simp_all
  with a d show ?thesis
    unfolding digit_def by (simp only: nth_eq_iff_index_eq)
qed

lemma itoa_nat_small: "n < 10 \<Longrightarrow> itoa_nat n = [digit n]"
  by (subst itoa_nat.simps) simp

lemma itoa_nat_large: "\<not> n < 10 \<Longrightarrow> itoa_nat n = itoa_nat (n div 10) @ [digit n]"
  by (subst itoa_nat.simps) simp

lemma itoa_nat_not_Nil [simp]: "itoa_nat n \<noteq> []" "[] \<noteq> itoa_nat n"
  by (cases "n < 10"; simp add: itoa_nat_small itoa_nat_large)+

lemma itoa_nat_inj: "itoa_nat m = itoa_nat n \<Longrightarrow> m = n"
proof (induction m arbitrary: n rule: itoa_nat.induct)
  case (1 m)
  show ?case
  proof (cases "m < 10")
    case True
    then have m: "itoa_nat m = [digit m]" by (rule itoa_nat_small)
    have n: "n < 10"
    proof (rule ccontr)
      assume "\<not> n < 10"
      then have "itoa_nat n = itoa_nat (n div 10) @ [digit n]" by (rule itoa_nat_large)
      with "1.prems" m show False by simp
    qed
    then have "itoa_nat n = [digit n]" by (rule itoa_nat_small)
    with "1.prems" m have "digit m = digit n" by simp
    then have "m mod 10 = n mod 10" by (rule digit_inj)
    with True n show ?thesis by simp
  next
    case False
    then have m: "itoa_nat m = itoa_nat (m div 10) @ [digit m]" by (rule itoa_nat_large)
    have n: "\<not> n < 10"
    proof
      assume "n < 10"
      then have "itoa_nat n = [digit n]" by (rule itoa_nat_small)
      with "1.prems" m show False by simp
    qed
    then have "itoa_nat n = itoa_nat (n div 10) @ [digit n]" by (rule itoa_nat_large)
    with "1.prems" m have a: "itoa_nat (m div 10) = itoa_nat (n div 10)" and b: "digit m = digit n"
      by simp_all
    from "1.IH" [OF False a] have "m div 10 = n div 10" .
    moreover from b have "m mod 10 = n mod 10" by (rule digit_inj)
    ultimately show ?thesis by (metis div_mult_mod_eq)
  qed
qed

lemma generation_inj: "0 \<le> i \<Longrightarrow> 0 \<le> j \<Longrightarrow> generation root i = generation root j \<Longrightarrow> i = j"
proof -
  assume i: "0 \<le> i" and j: "0 \<le> j" and g: "generation root i = generation root j"
  from g have "Itoa i = Itoa j" by (simp add: generation_def)
  with i j have "itoa_nat (nat i) = itoa_nat (nat j)" by (simp add: Itoa_def)
  then have "nat i = nat j" by (rule itoa_nat_inj)
  with i j show ?thesis by simp
qed

lemma fold_shift_step:
  "1 \<le> m \<Longrightarrow> fold (shiftOne root) (rev [1..m]) f =
     fold (shiftOne root) (rev [1..m - 1]) (shiftOne root m f)"
  by (simp add: rev_upto_rec)

lemma generation_succ_neq: "0 \<le> m \<Longrightarrow> generation root m \<noteq> generation root (m + 1)"
proof
  assume "0 \<le> m" and "generation root m = generation root (m + 1)"
  then have "m = m + 1" by (intro generation_inj [of m "m + 1" root]) simp_all
  then show False by simp
qed

lemma shiftOne_source: "0 \<le> m \<Longrightarrow> shiftOne root m f (generation root m) = None"
  using generation_succ_neq [of m root] by (simp add: shiftOne_def split: option.split)

lemma shiftOne_target:
  "shiftOne root m f (generation root (m + 1)) =
     (case f (generation root m) of None \<Rightarrow> f (generation root (m + 1)) | Some c \<Rightarrow> Some c)"
  by (simp add: shiftOne_def split: option.split)

lemma shiftOne_other:
  "p \<noteq> generation root m \<Longrightarrow> p \<noteq> generation root (m + 1) \<Longrightarrow> shiftOne root m f p = f p"
  by (simp add: shiftOne_def split: option.split)

lemma generation_neq_iff: "0 \<le> i \<Longrightarrow> 0 \<le> j \<Longrightarrow> i \<noteq> j \<Longrightarrow> generation root i \<noteq> generation root j"
  by (blast dest: generation_inj)

lemma fold_shift_pointwise:
  "0 \<le> n \<Longrightarrow>
   ((\<forall>j. 1 \<le> j \<and> j \<le> n + 1 \<longrightarrow> p \<noteq> generation root j) \<longrightarrow>
      fold (shiftOne root) (rev [1..n]) f p = f p) \<and>
   (1 \<le> n \<longrightarrow> fold (shiftOne root) (rev [1..n]) f (generation root 1) = None) \<and>
   (\<forall>j. 2 \<le> j \<and> j \<le> n \<longrightarrow>
      fold (shiftOne root) (rev [1..n]) f (generation root j) = f (generation root (j - 1))) \<and>
   (1 \<le> n \<longrightarrow>
      fold (shiftOne root) (rev [1..n]) f (generation root (n + 1)) =
        (case f (generation root n) of
           None \<Rightarrow> f (generation root (n + 1)) | Some c \<Rightarrow> Some c))"
proof (induction n arbitrary: f p rule: int_ge_induct)
  case base
  show ?case by auto
next
  case (step n)
  let ?m = "n + 1"
  let ?f1 = "shiftOne root ?m f"
  let ?F = "\<lambda>k h. fold (shiftOne root) (rev [1..k]) h"
  have m: "1 \<le> ?m" "0 \<le> ?m" using step.hyps by simp_all
  have unf: "\<And>q. ?F ?m f q = ?F n ?f1 q"
    using fold_shift_step [OF m(1), of root f] by simp
  note ih = step.IH [of _ ?f1]
  have a: "(\<forall>j. 1 \<le> j \<and> j \<le> ?m + 1 \<longrightarrow> p \<noteq> generation root j) \<longrightarrow> ?F ?m f p = f p"
  proof
    assume h: "\<forall>j. 1 \<le> j \<and> j \<le> ?m + 1 \<longrightarrow> p \<noteq> generation root j"
    then have "\<forall>j. 1 \<le> j \<and> j \<le> n + 1 \<longrightarrow> p \<noteq> generation root j" by simp
    with ih [of p] have "?F n ?f1 p = ?f1 p" by blast
    moreover have "p \<noteq> generation root ?m" "p \<noteq> generation root (?m + 1)"
      using h m by simp_all
    then have "?f1 p = f p" by (rule shiftOne_other)
    ultimately show "?F ?m f p = f p" by (simp add: unf)
  qed
  have b: "1 \<le> ?m \<longrightarrow> ?F ?m f (generation root 1) = None"
  proof
    show "?F ?m f (generation root 1) = None"
    proof (cases "n = 0")
      case True
      then show ?thesis using shiftOne_source [of 1 root f] by (simp add: unf)
    next
      case False
      with step.hyps have "1 \<le> n" by simp
      with ih [of p] show ?thesis by (simp add: unf)
    qed
  qed
  have c: "\<forall>j. 2 \<le> j \<and> j \<le> ?m \<longrightarrow>
      ?F ?m f (generation root j) = f (generation root (j - 1))"
  proof (intro allI impI)
    fix j assume j: "2 \<le> j \<and> j \<le> ?m"
    show "?F ?m f (generation root j) = f (generation root (j - 1))"
    proof (cases "j \<le> n")
      case True
      with j ih [of p] have "?F n ?f1 (generation root j) = ?f1 (generation root (j - 1))"
        by blast
      moreover have "generation root (j - 1) \<noteq> generation root ?m"
        "generation root (j - 1) \<noteq> generation root (?m + 1)"
        using j True by (simp_all add: generation_neq_iff)
      then have "?f1 (generation root (j - 1)) = f (generation root (j - 1))"
        by (rule shiftOne_other)
      ultimately show ?thesis by (simp add: unf)
    next
      case False
      with j have jm: "j = n + 1" and n1: "1 \<le> n" by simp_all
      from n1 ih [of p] have "?F n ?f1 (generation root (n + 1)) =
          (case ?f1 (generation root n) of
             None \<Rightarrow> ?f1 (generation root (n + 1)) | Some c \<Rightarrow> Some c)"
        by blast
      moreover have "generation root n \<noteq> generation root ?m"
        "generation root n \<noteq> generation root (?m + 1)"
        using n1 by (simp_all add: generation_neq_iff)
      then have "?f1 (generation root n) = f (generation root n)"
        by (rule shiftOne_other)
      moreover have "?f1 (generation root (n + 1)) = None"
        using m(2) by (rule shiftOne_source)
      ultimately show ?thesis by (simp add: unf jm split: option.split)
    qed
  qed
  have d: "1 \<le> ?m \<longrightarrow>
      ?F ?m f (generation root (?m + 1)) =
        (case f (generation root ?m) of
           None \<Rightarrow> f (generation root (?m + 1)) | Some c \<Rightarrow> Some c)"
  proof
    have "\<forall>j. 1 \<le> j \<and> j \<le> n + 1 \<longrightarrow> generation root (?m + 1) \<noteq> generation root j"
    proof (intro allI impI)
      fix j assume "1 \<le> j \<and> j \<le> n + 1"
      with step.hyps show "generation root (?m + 1) \<noteq> generation root j"
        by (intro generation_neq_iff) simp_all
    qed
    with step.IH [of "generation root (?m + 1)" ?f1]
    have e: "?F n ?f1 (generation root (?m + 1)) = ?f1 (generation root (?m + 1))" by blast
    show "?F ?m f (generation root (?m + 1)) =
        (case f (generation root ?m) of
           None \<Rightarrow> f (generation root (?m + 1)) | Some c \<Rightarrow> Some c)"
      unfolding unf e by (rule shiftOne_target)
  qed
  from a b c d show ?case by (intro conjI)
qed

lemma Itoa_small: "0 \<le> i \<Longrightarrow> i < 10 \<Longrightarrow> Itoa i = [digit (nat i)]"
  by (simp add: Itoa_def itoa_nat_small)

lemma generation_1: "generation root 1 = root @ ''.1.gz''"
  by (simp add: generation_def Itoa_small digit_def)

lemma shiftAll_pointwise:
  "(3 \<le> n \<longrightarrow> shiftAll root n f (generation root 1) = None) \<and>
   (\<forall>j. 2 \<le> j \<and> j \<le> n - 2 \<longrightarrow>
      shiftAll root n f (generation root j) = f (generation root (j - 1))) \<and>
   (3 \<le> n \<longrightarrow>
      shiftAll root n f (generation root (n - 1)) =
        (case f (generation root (n - 2)) of
           None \<Rightarrow> f (generation root (n - 1)) | Some c \<Rightarrow> Some c)) \<and>
   (\<forall>p. (\<forall>j. 1 \<le> j \<and> j \<le> n - 1 \<longrightarrow> p \<noteq> generation root j) \<longrightarrow> shiftAll root n f p = f p)"
proof (cases "0 \<le> n - 2")
  case False
  then have "shiftAll root n f = f" by (simp add: shiftAll_def)
  with False show ?thesis by auto
next
  case True
  have a: "\<forall>p. (\<forall>j. 1 \<le> j \<and> j \<le> n - 1 \<longrightarrow> p \<noteq> generation root j) \<longrightarrow> shiftAll root n f p = f p"
  proof (intro allI impI)
    fix p assume "\<forall>j. 1 \<le> j \<and> j \<le> n - 1 \<longrightarrow> p \<noteq> generation root j"
    then have "\<forall>j. 1 \<le> j \<and> j \<le> n - 2 + 1 \<longrightarrow> p \<noteq> generation root j" by simp
    with fold_shift_pointwise [OF True, of p root f] show "shiftAll root n f p = f p"
      unfolding shiftAll_def by blast
  qed
  have b: "3 \<le> n \<longrightarrow> shiftAll root n f (generation root 1) = None"
    using fold_shift_pointwise [OF True, of "[]" root f] unfolding shiftAll_def by simp
  have c: "\<forall>j. 2 \<le> j \<and> j \<le> n - 2 \<longrightarrow>
      shiftAll root n f (generation root j) = f (generation root (j - 1))"
    using fold_shift_pointwise [OF True, of "[]" root f] unfolding shiftAll_def by blast
  have eq: "n - 2 + 1 = n - 1" by simp
  have "1 \<le> n - 2 \<longrightarrow>
      shiftAll root n f (generation root (n - 2 + 1)) =
        (case f (generation root (n - 2)) of
           None \<Rightarrow> f (generation root (n - 2 + 1)) | Some c \<Rightarrow> Some c)"
    using fold_shift_pointwise [OF True, of "[]" root f] unfolding shiftAll_def by blast
  then have d: "3 \<le> n \<longrightarrow>
      shiftAll root n f (generation root (n - 1)) =
        (case f (generation root (n - 2)) of
           None \<Rightarrow> f (generation root (n - 1)) | Some c \<Rightarrow> Some c)"
    unfolding eq by simp
  from a b c d show ?thesis by (intro conjI)
qed

lemma sample_paths:
  "logRoot env0 globals0 = ''/log/job.log''"
  "logRoot env_nocreate globals0 = ''/log/job.log''"
  "logRoot env_nostat globals0 = ''/log/job.log''"
  "logRoot env_noflush globals0 = ''/log/job.log''"
  "logFile env0 globals0 = ''/log/job.log''"
  "globalLogFileCount globals0 = 5"
  "generation ''/log/job.log'' 1 = ''/log/job.log.1.gz''"
  "generation ''/log/job.log'' 2 = ''/log/job.log.2.gz''"
  "generation ''/log/job.log'' 3 = ''/log/job.log.3.gz''"
  "generation ''/log/job.log'' 4 = ''/log/job.log.4.gz''"
  by (simp_all add: logRoot_def logFile_def env0_def env_nocreate_def env_nostat_def
      env_noflush_def globals0_def generation_def Itoa_small digit_def)

lemma world_gens_files:
  "fs world_gens ''/log/job.log'' = Some (Plain ''run 3'')"
  "fs world_gens ''/log/job.log.1.gz'' = Some (Gzip ''/log/job.log.1.gz'' (Plain ''run 2''))"
  "fs world_gens ''/log/job.log.2.gz'' = None"
  "fs world_gens ''/log/job.log.3.gz'' = Some (Gzip ''/log/job.log.1.gz'' (Plain ''run 0''))"
  "fs world_gens ''/log/job.log.4.gz'' = None"
  by (simp_all add: world_gens_def world0_def)

lemma world_log_files:
  "fs world_log ''/log/job.log'' = Some (Plain ''old run'')"
  "fs world_log ''/log/job.log.1.gz'' = None"
  "fs world0 ''/log/job.log'' = None"
  by (simp_all add: world_log_def world0_def)

lemma fault_samples:
  "fault env_nostat (OpStat p) = Some ''permission denied''"
  "fault env_nostat (OpOpen p) = Some ''permission denied''"
  "fault env_noflush (OpStat p) = None"
  "fault env_noflush (OpOpen p) = None"
  "fault env_noflush (OpCreate p) = None"
  "fault env_noflush (OpCopy p q) = None"
  "fault env_noflush (OpGzipClose p) = Some ''no space left on device''"
  "fault env_noflush (OpClose p) = None"
  "fault env_nocreate (OpCreate p) = Some ''permission denied''"
  by (simp_all add: env_nostat_def env_noflush_def env_nocreate_def env0_def)

lemma rotate_nostat_world0:
  "fst (rotateLogFiles env_nostat globals0 world0) = Some ''permission denied''"
  by (simp add: rotateLogFiles_result sample_paths fault_samples)

lemma rotate_noflush_world_log:
  "rotateLogFiles env_noflush globals0 world_log =
     (None,
      world_log\<lparr>fs := (shiftAll ''/log/job.log'' 5 (fs world_log))
                          (''/log/job.log.1.gz'' \<mapsto>
                             PartOf (Gzip ''/log/job.log.1.gz'' (Plain ''old run'')))\<rparr>)"
proof -
  have "rotateLogFiles env_noflush globals0 world_log =
     (None,
      file_Close env_noflush ''/log/job.log.1.gz''
        (gzip_Close env_noflush ''/log/job.log.1.gz'' ''/log/job.log.1.gz''
           (world_log\<lparr>fs := (shiftAll ''/log/job.log'' 5 (fs world_log))
                                 (''/log/job.log.1.gz'' \<mapsto>
                                    PartOf (Gzip ''/log/job.log.1.gz'' (Plain ''old run'')))\<rparr>)))"
    using rotateLogFiles_present [of world_log env_noflush globals0 "Plain ''old run''"]
    by (simp add: sample_paths world_log_files fault_samples)
  then show ?thesis
    by (simp add: gzip_Close_def file_Close_def fault_samples)
qed

text \<open>
  C5, as the code has it. Write \<open>root\<close> for the name of the log, \<open>n\<close> for the retention
  depth and \<open>shifted\<close> for the files after the renames of generation \<open>i\<close> to generation
  \<open>i + 1\<close>, for \<open>i\<close> from \<open>n - 2\<close> down to 1, a missing generation being skipped. Whatever
  \<^verbatim>\<open>rotateLogFiles\<close> returns, every file but generation 1 is as the renames leave it. The
  renames vacate generation 1, put the old generation \<open>j - 1\<close> (or its absence) in the
  place of generation \<open>j\<close> up to \<open>n - 2\<close>, put the old generation \<open>n - 2\<close> in the place of
  generation \<open>n - 1\<close> when there is one, and touch no other file. Then: when \<^verbatim>\<open>os.Stat\<close>
  reports that the log does not exist, the rotation returns no error and does nothing
  more. Otherwise the log is opened, generation 1 created and the log copied into it:
  when \<^verbatim>\<open>os.Open\<close>, \<^verbatim>\<open>os.Create\<close> or \<^verbatim>\<open>io.Copy\<close> fails, the rotation returns an error; when
  the three and the two deferred \<^verbatim>\<open>Close\<close> calls succeed, the rotation returns no error
  and generation 1 is the gzip stream of the log. What a failure of a deferred \<^verbatim>\<open>Close\<close>
  gives is not part of the statement.
\<close>

theorem rotation_algorithm:
  fixes e g w
  defines "root \<equiv> logRoot e g" and "n \<equiv> globalLogFileCount g"
  defines "shifted \<equiv> shiftAll root n (fs w)"
  assumes "rotateLogFiles e g w = (r, w')"
  shows "(\<forall>p. p \<noteq> generation root 1 \<longrightarrow> fs w' p = shifted p) \<and>
     (3 \<le> n \<longrightarrow> shifted (generation root 1) = None) \<and>
     (\<forall>j. 2 \<le> j \<and> j \<le> n - 2 \<longrightarrow> shifted (generation root j) = fs w (generation root (j - 1))) \<and>
     (3 \<le> n \<longrightarrow>
        shifted (generation root (n - 1)) =
          (case fs w (generation root (n - 2)) of
             None \<Rightarrow> fs w (generation root (n - 1)) | Some c \<Rightarrow> Some c)) \<and>
     (\<forall>p. (\<forall>j. 1 \<le> j \<and> j \<le> n - 1 \<longrightarrow> p \<noteq> generation root j) \<longrightarrow> shifted p = fs w p) \<and>
     (fault e (OpStat root) = None \<and> fs w root = None \<longrightarrow> r = None \<and> w' = w\<lparr>fs := shifted\<rparr>) \<and>
     (\<forall>b. fs w root = Some b \<and> fault e (OpOpen root) = None \<and>
          fault e (OpCreate (generation root 1)) = None \<and>
          fault e (OpCopy root (generation root 1)) = None \<and>
          fault e (OpGzipClose (generation root 1)) = None \<and>
          fault e (OpClose (generation root 1)) = None \<longrightarrow>
        r = None \<and> w' = w\<lparr>fs := shifted(generation root 1 \<mapsto> Gzip (generation root 1) b)\<rparr>) \<and>
     ((fault e (OpStat root) \<noteq> None \<or> fs w root \<noteq> None) \<and>
        (fault e (OpOpen root) \<noteq> None \<or> fs w root = None \<or>
         fault e (OpCreate (generation root 1)) \<noteq> None \<or>
         fault e (OpCopy root (generation root 1)) \<noteq> None) \<longrightarrow>
        r \<noteq> None)"
proof -
  have st: "(\<forall>p. p \<noteq> generation (logRoot e g) 1 \<longrightarrow>
            fs w' p = shiftAll (logRoot e g) (globalLogFileCount g) (fs w) p) \<and>
     (fault e (OpStat (logRoot e g)) = None \<and> fs w (logRoot e g) = None \<longrightarrow>
        r = None \<and> w' = w\<lparr>fs := shiftAll (logRoot e g) (globalLogFileCount g) (fs w)\<rparr>) \<and>
     (\<forall>b. fs w (logRoot e g) = Some b \<and> fault e (OpOpen (logRoot e g)) = None \<and>
          fault e (OpCreate (generation (logRoot e g) 1)) = None \<and>
          fault e (OpCopy (logRoot e g) (generation (logRoot e g) 1)) = None \<and>
          fault e (OpGzipClose (generation (logRoot e g) 1)) = None \<and>
          fault e (OpClose (generation (logRoot e g) 1)) = None \<longrightarrow>
        r = None \<and>
        w' = w\<lparr>fs := (shiftAll (logRoot e g) (globalLogFileCount g) (fs w))
                      (generation (logRoot e g) 1 \<mapsto> Gzip (generation (logRoot e g) 1) b)\<rparr>) \<and>
     ((fault e (OpStat (logRoot e g)) \<noteq> None \<or> fs w (logRoot e g) \<noteq> None) \<and>
        (fault e (OpOpen (logRoot e g)) \<noteq> None \<or> fs w (logRoot e g) = None \<or>
         fault e (OpCreate (generation (logRoot e g) 1)) \<noteq> None \<or>
         fault e (OpCopy (logRoot e g) (generation (logRoot e g) 1)) \<noteq> None) \<longrightarrow>
        r \<noteq> None)"
    using rotateLogFiles_steps [OF assms(4)] by (simp only: generation_1)
  note pw = shiftAll_pointwise [of "globalLogFileCount g" "logRoot e g" "fs w"]
  show ?thesis
    unfolding root_def n_def shifted_def
    by (intro conjI st [THEN conjunct1] st [THEN conjunct2, THEN conjunct1]
        st [THEN conjunct2, THEN conjunct2, THEN conjunct1]
        st [THEN conjunct2, THEN conjunct2, THEN conjunct2]
        pw [THEN conjunct1] pw [THEN conjunct2, THEN conjunct1]
        pw [THEN conjunct2, THEN conjunct2, THEN conjunct1]
        pw [THEN conjunct2, THEN conjunct2, THEN conjunct2])
qed

text \<open>
  C5 with retention depth 5, on a log with generations 1 and 3 and no generation 2,
  where every file operation succeeds: generation 3 becomes generation 4, the gap moves
  up to generation 3, generation 1 becomes generation 2, and the log is compressed into
  generation 1. The same rotation returns an error when the compressed file cannot be
  created, and a rotation with no log, reported so by \<^verbatim>\<open>os.Stat\<close>, returns no error.
\<close>

theorem rotation_algorithm_witness:
  "fst (rotateLogFiles env0 globals0 world_gens) = None \<and>
   fs (snd (rotateLogFiles env0 globals0 world_gens)) ''/log/job.log.1.gz'' =
     Some (Gzip ''/log/job.log.1.gz'' (Plain ''run 3'')) \<and>
   fs (snd (rotateLogFiles env0 globals0 world_gens)) ''/log/job.log.2.gz'' =
     Some (Gzip ''/log/job.log.1.gz'' (Plain ''run 2'')) \<and>
   fs (snd (rotateLogFiles env0 globals0 world_gens)) ''/log/job.log.3.gz'' = None \<and>
   fs (snd (rotateLogFiles env0 globals0 world_gens)) ''/log/job.log.4.gz'' =
     Some (Gzip ''/log/job.log.1.gz'' (Plain ''run 0'')) \<and>
   fst (rotateLogFiles env_nocreate globals0 world_gens) \<noteq> None \<and>
   fst (rotateLogFiles env0 globals0 world0) = None"
proof -
  let ?S = "shiftAll ''/log/job.log'' 5 (fs world_gens)"
  obtain r1 w1 where o1: "rotateLogFiles env0 globals0 world_gens = (r1, w1)"
    by (cases "rotateLogFiles env0 globals0 world_gens")
  obtain r2 w2 where o2: "rotateLogFiles env_nocreate globals0 world_gens = (r2, w2)"
    by (cases "rotateLogFiles env_nocreate globals0 world_gens")
  obtain r3 w3 where o3: "rotateLogFiles env0 globals0 world0 = (r3, w3)"
    by (cases "rotateLogFiles env0 globals0 world0")
  note t1 = rotation_algorithm [OF o1, unfolded sample_paths]
  have s2: "?S ''/log/job.log.2.gz'' = fs world_gens ''/log/job.log.1.gz''"
    using t1 [THEN conjunct2, THEN conjunct2, THEN conjunct1, THEN spec, of 2]
    by (simp add: sample_paths)
  have s3: "?S ''/log/job.log.3.gz'' = fs world_gens ''/log/job.log.2.gz''"
    using t1 [THEN conjunct2, THEN conjunct2, THEN conjunct1, THEN spec, of 3]
    by (simp add: sample_paths)
  have s4: "?S ''/log/job.log.4.gz'' = fs world_gens ''/log/job.log.3.gz''"
    using t1 [THEN conjunct2, THEN conjunct2, THEN conjunct2, THEN conjunct1]
    by (simp add: sample_paths world_gens_files)
  have res: "r1 = None \<and>
      w1 = world_gens\<lparr>fs := ?S(''/log/job.log.1.gz'' \<mapsto>
                                Gzip ''/log/job.log.1.gz'' (Plain ''run 3''))\<rparr>"
    using t1 [THEN conjunct2, THEN conjunct2, THEN conjunct2, THEN conjunct2, THEN conjunct2,
        THEN conjunct2, THEN conjunct1, THEN spec, of "Plain ''run 3''"]
    by (simp add: world_gens_files env0_def)
  have "r2 \<noteq> None"
    using rotation_algorithm [OF o2, unfolded sample_paths, THEN conjunct2, THEN conjunct2,
        THEN conjunct2, THEN conjunct2, THEN conjunct2, THEN conjunct2, THEN conjunct2]
    by (simp add: world_gens_files fault_samples)
  moreover have "r3 = None"
    using rotation_algorithm [OF o3, unfolded sample_paths, THEN conjunct2, THEN conjunct2,
        THEN conjunct2, THEN conjunct2, THEN conjunct2, THEN conjunct1]
    by (simp add: world_log_files env0_def)
  ultimately show ?thesis
    by (simp add: o1 o2 o3 res s2 s3 s4 world_gens_files)
qed

text \<open>
  C5, as the specification words it, fails in two places. Where the log does not exist
  and \<^verbatim>\<open>os.Stat\<close> fails with a permission error, which is not ENOENT, the rotation goes on
  to \<^verbatim>\<open>os.Open\<close> and returns its error: it does not succeed. And where the disk is full
  when the deferred \<^verbatim>\<open>archiver.Close()\<close> writes the end of the stream, the write during
  compression has failed and the rotation returns no error.
\<close>

theorem rotation_error_counterexample:
  "fs world0 ''/log/job.log'' = None \<and>
   fst (rotateLogFiles env_nostat globals0 world0) = Some ''permission denied'' \<and>
   fs world_log ''/log/job.log'' = Some (Plain ''old run'') \<and>
   fault env_noflush (OpGzipClose ''/log/job.log.1.gz'') = Some ''no space left on device'' \<and>
   fst (rotateLogFiles env_noflush globals0 world_log) = None"
  by (simp add: world_log_files rotate_nostat_world0 rotate_noflush_world_log fault_samples)






end
